theory Spec2Isabelle
  imports Complex_Main "HOL-Library.AList" "HOL-Library.Multiset"
begin

section \<open>The squad optimizer of \<^verbatim>\<open>flask_app/utils/optimizer.py\<close>\<close>

text \<open>
  This theory embeds \<^verbatim>\<open>FPLOptimizer.optimize_squad\<close> and
  \<^verbatim>\<open>FPLOptimizer.optimize_multiple_squads\<close>.

  Numbers: prices and predicted points are Python floats, modelled as the reals they
  denote. Comparisons of floats are exact. Additions are not: Python's \<^verbatim>\<open>sum\<close> and
  \<^verbatim>\<open>+\<close> round, so the sums the code computes depend on the order of the terms.
  Float addition is therefore a parameter \<open>fadd\<close> of the model, of which nothing is
  assumed, and the totals of the result are folds of \<open>fadd\<close> in the order the code adds.

  The solver: \<^verbatim>\<open>problem.solve(PULP_CBC_CMD(msg=0))\<close> is a call into the PuLP/CBC
  library, which is not code of this repository. The linear program the repository code
  builds is modelled in full (variables, objective, every constraint); the call itself is
  a parameter \<open>solver\<close>. Where a property depends on what the library returns, the
  theorem assumes the contract \<open>cbc_contract tol gap\<close> for the problem at hand. The
  library works to tolerances, and the contract grants it both: the returned assignment
  satisfies every constraint up to \<open>tol\<close> only, and it is within \<open>gap\<close> of the best
  objective only.
\<close>

subsection \<open>The data frame\<close>

text \<open>
  One row of \<^verbatim>\<open>players_df\<close>: the index label and the columns the optimizer reads.
  The \<open>team\<close> column is optional in the source (\<^verbatim>\<open>'team' in players_df.columns\<close>);
  \<open>team_col\<close> says whether the frame carries it, and the \<open>team\<close> field of a row is read
  only when it does.
\<close>

record player =
  pid :: int
  name :: string
  team :: string
  position :: string
  price :: real
  predicted_points :: real

record players_df =
  rows :: "player list"
  team_col :: bool

text \<open>\<^verbatim>\<open>players_df.index.tolist()\<close>\<close>

definition index_tolist :: "players_df \<Rightarrow> int list" where
  "index_tolist df = map pid (rows df)"

text \<open>
  A Python dict as an association list in insertion order: storing under a key that is
  present replaces the value in place, a new key is appended. \<^verbatim>\<open>Series.to_dict()\<close>
  stores the rows one after the other.
\<close>

type_synonym 'a pydict = "(int \<times> 'a) list"

definition to_dict :: "(player \<Rightarrow> 'a) \<Rightarrow> players_df \<Rightarrow> 'a pydict" where
  "to_dict col df = fold (\<lambda>r d. AList.update (pid r) (col r) d) (rows df) []"

text \<open>
  \<^verbatim>\<open>d[k]\<close> for a key taken from the index. Every key the optimizer looks up comes
  from \<^verbatim>\<open>player_ids\<close>, and every such key is in the dict (lemma \<open>to_dict_defined\<close>
  below), so the \<^verbatim>\<open>KeyError\<close> branch of Python's subscript is never taken.
\<close>

definition dict_at :: "'a pydict \<Rightarrow> int \<Rightarrow> 'a" where
  "dict_at d k = the (map_of d k)"

subsection \<open>The linear program\<close>

text \<open>
  An affine expression \<^verbatim>\<open>lpSum([c_i * player_vars[i] ...])\<close> is a list of
  (coefficient, variable) terms; a variable is named by its index label.
\<close>

datatype sense = LpLE | LpEQ

record lp_constraint =
  lhs :: "(real \<times> int) list"
  sense :: sense
  rhs :: real

record lp_problem =
  variables :: "int list"
  objective :: "(real \<times> int) list"
  constraints :: "lp_constraint list"

definition lp_sum :: "(int \<Rightarrow> real) \<Rightarrow> int list \<Rightarrow> (real \<times> int) list" where
  "lp_sum c ids = map (\<lambda>i. (c i, i)) ids"

definition lp_value :: "(real \<times> int) list \<Rightarrow> (int \<Rightarrow> real) \<Rightarrow> real" where
  "lp_value ts x = sum_list (map (\<lambda>(c, i). c * x i) ts)"

definition satisfies :: "(int \<Rightarrow> real) \<Rightarrow> lp_constraint \<Rightarrow> bool" where
  "satisfies x c =
     (case sense c of
        LpLE \<Rightarrow> lp_value (lhs c) x \<le> rhs c
      | LpEQ \<Rightarrow> lp_value (lhs c) x = rhs c)"

text \<open>A constraint holds up to a tolerance: the solver's notion of feasibility.\<close>

definition satisfies_within :: "real \<Rightarrow> (int \<Rightarrow> real) \<Rightarrow> lp_constraint \<Rightarrow> bool" where
  "satisfies_within tol x c =
     (case sense c of
        LpLE \<Rightarrow> lp_value (lhs c) x \<le> rhs c + tol
      | LpEQ \<Rightarrow> \<bar>lp_value (lhs c) x - rhs c\<bar> \<le> tol)"

text \<open>Lines 10 to 50: the program \<^verbatim>\<open>optimize_squad\<close> hands to the solver.\<close>

definition ids_at :: "string pydict \<Rightarrow> int list \<Rightarrow> string \<Rightarrow> int list" where
  "ids_at positions player_ids pos = filter (\<lambda>i. map_of positions i = Some pos) player_ids"

definition teams_of :: "players_df \<Rightarrow> string pydict" where
  "teams_of df = (if team_col df then to_dict team df else [])"

definition team_constraints :: "string pydict \<Rightarrow> int list \<Rightarrow> lp_constraint list" where
  "team_constraints teams player_ids =
     (if teams \<noteq> [] then
        concat (map (\<lambda>t.
            let team_players = filter (\<lambda>i. map_of teams i = Some t) player_ids
            in if team_players \<noteq> []
               then [\<lparr>lhs = lp_sum (\<lambda>i. 1) team_players, sense = LpLE, rhs = 3\<rparr>]
               else [])
          (remdups (map snd teams)))
      else [])"

definition build_problem :: "players_df \<Rightarrow> real \<Rightarrow> lp_problem" where
  "build_problem df budget =
     (let player_ids = index_tolist df;
          points = to_dict predicted_points df;
          prices = to_dict price df;
          positions = to_dict position df;
          teams = teams_of df;
          gk_ids = ids_at positions player_ids ''GK'';
          def_ids = ids_at positions player_ids ''DEF'';
          mid_ids = ids_at positions player_ids ''MID'';
          fwd_ids = ids_at positions player_ids ''FWD''
      in \<lparr>variables = player_ids,
          objective = lp_sum (dict_at points) player_ids,
          constraints =
            [\<lparr>lhs = lp_sum (dict_at prices) player_ids, sense = LpLE, rhs = budget\<rparr>,
             \<lparr>lhs = lp_sum (\<lambda>i. 1) player_ids, sense = LpEQ, rhs = 15\<rparr>,
             \<lparr>lhs = lp_sum (\<lambda>i. 1) gk_ids, sense = LpEQ, rhs = 2\<rparr>,
             \<lparr>lhs = lp_sum (\<lambda>i. 1) def_ids, sense = LpEQ, rhs = 5\<rparr>,
             \<lparr>lhs = lp_sum (\<lambda>i. 1) mid_ids, sense = LpEQ, rhs = 5\<rparr>,
             \<lparr>lhs = lp_sum (\<lambda>i. 1) fwd_ids, sense = LpEQ, rhs = 3\<rparr>]
            @ team_constraints teams player_ids\<rparr>)"

subsection \<open>The solver as a parameter, and its contract\<close>

text \<open>
  The solver returns the status code and the value of every variable. Status 1 is
  \<^verbatim>\<open>LpStatusOptimal\<close>.
\<close>

type_synonym solver = "lp_problem \<Rightarrow> int \<times> (int \<Rightarrow> real)"

definition indicator_of :: "int list \<Rightarrow> int \<Rightarrow> real" where
  "indicator_of s i = (if i \<in> set s then 1 else 0)"

definition lp_feasible :: "lp_problem \<Rightarrow> (int \<Rightarrow> real) \<Rightarrow> bool" where
  "lp_feasible p x \<longleftrightarrow>
     (\<forall>i \<in> set (variables p). x i = 0 \<or> x i = 1) \<and>
     (\<forall>c \<in> set (constraints p). satisfies x c)"

definition lp_feasible_within :: "real \<Rightarrow> lp_problem \<Rightarrow> (int \<Rightarrow> real) \<Rightarrow> bool" where
  "lp_feasible_within tol p x \<longleftrightarrow>
     (\<forall>i \<in> set (variables p). x i = 0 \<or> x i = 1) \<and>
     (\<forall>c \<in> set (constraints p). satisfies_within tol x c)"

text \<open>
  The contract of a solve of a 0/1 program with no time limit, to a feasibility tolerance
  \<open>tol\<close> and an optimality tolerance \<open>gap\<close>. When the status is 1 the values are a 0/1
  assignment that satisfies every constraint up to \<open>tol\<close>, and no choice of variables
  that satisfies the constraints exactly has an objective more than \<open>gap\<close> above it.
  When some choice satisfies the constraints exactly, the status is 1. Nothing is said
  of the status when the constraints can be met only up to the tolerance. The choices
  are enumerated as the sublists of the variable list. An exact solve is the case
  \<open>tol = 0\<close>, \<open>gap = 0\<close>.
\<close>

definition cbc_contract :: "real \<Rightarrow> real \<Rightarrow> solver \<Rightarrow> lp_problem \<Rightarrow> bool" where
  "cbc_contract tol gap solver p =
     (let (status, x) = solver p in
      (status = 1 \<longrightarrow>
         lp_feasible_within tol p x \<and>
         (\<forall>s \<in> set (subseqs (variables p)).
             lp_feasible p (indicator_of s) \<longrightarrow>
             lp_value (objective p) (indicator_of s) \<le> lp_value (objective p) x + gap)) \<and>
      ((\<exists>s \<in> set (subseqs (variables p)). lp_feasible p (indicator_of s)) \<longrightarrow> status = 1))"

subsection \<open>\<^verbatim>\<open>optimize_squad\<close>\<close>

record player_info =
  info_name :: string
  info_team :: string
  info_price :: real
  info_points :: real

text \<open>
  The dict a successful call returns. \<open>selected_ids\<close> is the local variable of line 60;
  the Python dict does not carry it, the model keeps it so that properties about
  candidate identity can be stated.
\<close>

record squad =
  total_cost :: real
  total_predicted :: real
  goalkeepers :: "player_info list"
  defenders :: "player_info list"
  midfielders :: "player_info list"
  forwards :: "player_info list"
  captain :: string
  captain_points :: real
  total_with_captain :: real
  selected_ids :: "int list"

text \<open>\<open>Failed m\<close> is \<^verbatim>\<open>{'status': 'failed', 'message': m}\<close>.\<close>

datatype optimize_result = Failed string | Success squad

datatype py_error = ValueError

text \<open>
  \<^verbatim>\<open>max(xs, key=f)\<close>: the first element whose key no later element exceeds;
  \<^verbatim>\<open>ValueError\<close> on the empty list.
\<close>

fun py_max :: "('a \<Rightarrow> real) \<Rightarrow> 'a list \<Rightarrow> py_error + 'a" where
  "py_max f [] = Inl ValueError"
| "py_max f (x # xs) = Inr (fold (\<lambda>y best. if f best < f y then y else best) xs x)"

text \<open>
  \<^verbatim>\<open>xs.sort(key=lambda x: x['predicted_points'], reverse=True)\<close>: a stable sort,
  greatest first, equal keys keeping their order.
\<close>

definition sort_desc :: "player_info list \<Rightarrow> player_info list" where
  "sort_desc xs = sort_key (\<lambda>p. - info_points p) xs"

definition info_of ::
  "string pydict \<Rightarrow> string pydict \<Rightarrow> real pydict \<Rightarrow> real pydict \<Rightarrow> int \<Rightarrow> player_info" where
  "info_of names teams prices points i =
     \<lparr>info_name = dict_at names i,
      info_team = (case map_of teams i of Some t \<Rightarrow> t | None \<Rightarrow> ''Unknown''),
      info_price = dict_at prices i,
      info_points = dict_at points i\<rparr>"

definition all_players :: "squad \<Rightarrow> player_info list" where
  "all_players sq = goalkeepers sq @ defenders sq @ midfielders sq @ forwards sq"

text \<open>
  Lines 73 to 89: the players of one position list, in the order of \<^verbatim>\<open>selected_ids\<close>.
  The \<^verbatim>\<open>if\<close>/\<^verbatim>\<open>elif\<close> chain compares the position with four different
  strings, so each selected id is appended to at most one list, and to none when its
  position is none of the four.
\<close>

definition players_at ::
  "string pydict \<Rightarrow> (int \<Rightarrow> player_info) \<Rightarrow> int list \<Rightarrow> string \<Rightarrow> player_info list" where
  "players_at positions info sel pos =
     map info (filter (\<lambda>i. map_of positions i = Some pos) sel)"

text \<open>
  \<^verbatim>\<open>sum(xs)\<close> over floats: the terms are added to 0 one after the other, left to
  right, each addition rounding as \<open>fadd\<close> does.
\<close>

type_synonym float_add = "real \<Rightarrow> real \<Rightarrow> real"

definition py_sum :: "float_add \<Rightarrow> real list \<Rightarrow> real" where
  "py_sum fadd xs = foldl fadd 0 xs"

text \<open>Lines 59 to 105: the result built from the solver's values.\<close>

definition build_squad ::
  "float_add \<Rightarrow> players_df \<Rightarrow> (int \<Rightarrow> real) \<Rightarrow> py_error + optimize_result" where
  "build_squad fadd df x =
     (let player_ids = index_tolist df;
          points = to_dict predicted_points df;
          prices = to_dict price df;
          positions = to_dict position df;
          names = to_dict name df;
          teams = teams_of df;
          sel = filter (\<lambda>i. x i = 1) player_ids;
          info = info_of names teams prices points;
          gks = players_at positions info sel ''GK'';
          defs = sort_desc (players_at positions info sel ''DEF'');
          mids = sort_desc (players_at positions info sel ''MID'');
          fwds = sort_desc (players_at positions info sel ''FWD'')
      in case py_max info_points (gks @ defs @ mids @ fwds) of
           Inl e \<Rightarrow> Inl e
         | Inr cap \<Rightarrow>
             Inr (Success
               \<lparr>total_cost = py_sum fadd (map (dict_at prices) sel),
                total_predicted = py_sum fadd (map (dict_at points) sel),
                goalkeepers = gks,
                defenders = defs,
                midfielders = mids,
                forwards = fwds,
                captain = info_name cap,
                captain_points = info_points cap,
                total_with_captain =
                  fadd (py_sum fadd (map (dict_at points) sel)) (info_points cap),
                selected_ids = sel\<rparr>))"

definition optimize_squad ::
  "float_add \<Rightarrow> solver \<Rightarrow> players_df \<Rightarrow> real \<Rightarrow> py_error + optimize_result" where
  "optimize_squad fadd solver df budget =
     (let (status, x) = solver (build_problem df budget)
      in if status \<noteq> 1 then Inr (Failed ''No optimal solution found'')
         else build_squad fadd df x)"

subsection \<open>\<^verbatim>\<open>optimize_multiple_squads\<close>\<close>

text \<open>\<^verbatim>\<open>str(n)\<close> for the round numbers, which are positive.\<close>

fun str_nat :: "nat \<Rightarrow> string" where
  "str_nat n =
     (if n < 10 then [char_of (48 + n)]
      else str_nat (n div 10) @ [char_of (48 + n mod 10)])"

text \<open>An entry of the returned list: the three added keys and the squad's own.\<close>

record squad_option =
  squad_number :: int
  squad_name :: string
  description :: string
  option_squad :: squad

definition make_option :: "int \<Rightarrow> squad \<Rightarrow> squad_option" where
  "make_option i sq =
     \<lparr>squad_number = i + 1,
      squad_name = ''Squad Option '' @ str_nat (nat (i + 1)),
      description = ''Optimal squad #'' @ str_nat (nat (i + 1)) @ '' maximizing predicted points'',
      option_squad = sq\<rparr>"

text \<open>\<^verbatim>\<open>players_df[~players_df.index.isin(excluded_players)]\<close>\<close>

definition available :: "players_df \<Rightarrow> int set \<Rightarrow> players_df" where
  "available df excluded = df\<lparr>rows := filter (\<lambda>r. pid r \<notin> excluded) (rows df)\<rparr>"

text \<open>
  Lines 134 to 139: for each player of the four position lists, the index labels of the
  rows of \<^verbatim>\<open>available_df\<close> that carry the player's name are added to the excluded
  set.
\<close>

definition name_indices :: "players_df \<Rightarrow> string \<Rightarrow> int list" where
  "name_indices available_df nm = map pid (filter (\<lambda>r. name r = nm) (rows available_df))"

definition mark_used :: "players_df \<Rightarrow> squad \<Rightarrow> int set \<Rightarrow> int set" where
  "mark_used available_df sq excluded =
     fold (\<lambda>player ex. ex \<union> set (name_indices available_df (info_name player)))
       (all_players sq) excluded"

text \<open>
  One pass through the loop body, from the state (\<^verbatim>\<open>squads\<close>,
  \<^verbatim>\<open>excluded_players\<close>): \<open>Break\<close> for either \<^verbatim>\<open>break\<close>, \<open>Next\<close> with the
  updated state otherwise. An exception raised by \<^verbatim>\<open>optimize_squad\<close> is not caught.
\<close>

datatype 'a loop_step = Break | Next 'a

type_synonym multi_state = "squad_option list \<times> int set"

definition round_body ::
  "float_add \<Rightarrow> solver \<Rightarrow> players_df \<Rightarrow> real \<Rightarrow> int \<Rightarrow> multi_state
   \<Rightarrow> py_error + multi_state loop_step" where
  "round_body fadd solver df budget i st =
     (let available_df = available df (snd st)
      in if length (rows available_df) < 15 then Inr Break
         else case optimize_squad fadd solver available_df budget of
                Inl e \<Rightarrow> Inl e
              | Inr (Failed m) \<Rightarrow> Inr Break
              | Inr (Success sq) \<Rightarrow>
                  Inr (Next (fst st @ [make_option i sq],
                             mark_used available_df sq (snd st))))"

fun squads_loop ::
  "float_add \<Rightarrow> solver \<Rightarrow> players_df \<Rightarrow> real \<Rightarrow> int list \<Rightarrow> multi_state
   \<Rightarrow> py_error + squad_option list" where
  "squads_loop fadd solver df budget [] st = Inr (fst st)"
| "squads_loop fadd solver df budget (i # is) st =
     (case round_body fadd solver df budget i st of
        Inl e \<Rightarrow> Inl e
      | Inr Break \<Rightarrow> Inr (fst st)
      | Inr (Next st') \<Rightarrow> squads_loop fadd solver df budget is st')"

text \<open>\<^verbatim>\<open>range(num_squads)\<close> is \<open>[0..num_squads - 1]\<close>, empty when \<open>num_squads \<le> 0\<close>.\<close>

definition optimize_multiple_squads ::
  "float_add \<Rightarrow> solver \<Rightarrow> players_df \<Rightarrow> int \<Rightarrow> real \<Rightarrow> py_error + squad_option list" where
  "optimize_multiple_squads fadd solver df num_squads budget =
     squads_loop fadd solver df budget [0..num_squads - 1] ([], {})"

subsection \<open>Feasible squads, in the words of the specification\<close>

text \<open>
  A squad chosen from the pool is a sublist of its rows. It is feasible when it has
  exactly 15 players, 2 goalkeepers, 5 defenders, 5 midfielders and 3 forwards, costs at
  most the budget, and, where the pool carries teams, has at most 3 players of any team.
\<close>

definition count_pos :: "string \<Rightarrow> player list \<Rightarrow> nat" where
  "count_pos pos sel = length (filter (\<lambda>r. position r = pos) sel)"

definition count_team :: "string \<Rightarrow> player list \<Rightarrow> nat" where
  "count_team t sel = length (filter (\<lambda>r. team r = t) sel)"

definition squad_ok :: "players_df \<Rightarrow> real \<Rightarrow> player list \<Rightarrow> bool" where
  "squad_ok df budget sel \<longleftrightarrow>
     length sel = 15 \<and>
     count_pos ''GK'' sel = 2 \<and> count_pos ''DEF'' sel = 5 \<and>
     count_pos ''MID'' sel = 5 \<and> count_pos ''FWD'' sel = 3 \<and>
     sum_list (map price sel) \<le> budget \<and>
     (team_col df \<longrightarrow> (\<forall>r \<in> set sel. count_team (team r) sel \<le> 3))"

definition feasible_squad :: "players_df \<Rightarrow> real \<Rightarrow> player list \<Rightarrow> bool" where
  "feasible_squad df budget sel \<longleftrightarrow> sel \<in> set (subseqs (rows df)) \<and> squad_ok df budget sel"

definition score :: "player list \<Rightarrow> real" where
  "score sel = sum_list (map predicted_points sel)"

text \<open>Brute-force enumeration: every sublist of the pool is tried.\<close>

definition feasible_squads :: "players_df \<Rightarrow> real \<Rightarrow> player list list" where
  "feasible_squads df budget = filter (squad_ok df budget) (subseqs (rows df))"


subsection \<open>Views of the selection used in the statements\<close>

text \<open>
  The rows whose variable the solver set to 1, in pool order; \<^verbatim>\<open>selected_ids\<close> is the
  list of their index labels.
\<close>

definition chosen :: "players_df \<Rightarrow> (int \<Rightarrow> real) \<Rightarrow> player list" where
  "chosen df x = filter (\<lambda>r. x (pid r) = 1) (rows df)"

text \<open>The \<^verbatim>\<open>player_info\<close> dict the result shows for a row of the pool.\<close>

definition info_row :: "players_df \<Rightarrow> player \<Rightarrow> player_info" where
  "info_row df r =
     \<lparr>info_name = name r,
      info_team = (if team_col df then team r else ''Unknown''),
      info_price = price r,
      info_points = predicted_points r\<rparr>"

definition binary_on :: "players_df \<Rightarrow> (int \<Rightarrow> real) \<Rightarrow> bool" where
  "binary_on df x \<longleftrightarrow> (\<forall>r \<in> set (rows df). x (pid r) = 0 \<or> x (pid r) = 1)"

text \<open>
  The result of lines 59 to 105 written over the chosen rows instead of over the dicts;
  lemma \<open>build_squad_rows\<close> shows that it is what \<open>build_squad\<close> returns when the
  index labels are distinct.
\<close>

definition listed :: "players_df \<Rightarrow> player list \<Rightarrow> string \<Rightarrow> player_info list" where
  "listed df sel pos = map (info_row df) (filter (\<lambda>r. position r = pos) sel)"

definition squad_from_rows ::
  "float_add \<Rightarrow> players_df \<Rightarrow> player list \<Rightarrow> py_error + optimize_result" where
  "squad_from_rows fadd df sel =
     (let gks = listed df sel ''GK'';
          defs = sort_desc (listed df sel ''DEF'');
          mids = sort_desc (listed df sel ''MID'');
          fwds = sort_desc (listed df sel ''FWD'')
      in case py_max info_points (gks @ defs @ mids @ fwds) of
           Inl e \<Rightarrow> Inl e
         | Inr cap \<Rightarrow>
             Inr (Success
               \<lparr>total_cost = py_sum fadd (map price sel),
                total_predicted = py_sum fadd (map predicted_points sel),
                goalkeepers = gks,
                defenders = defs,
                midfielders = mids,
                forwards = fwds,
                captain = info_name cap,
                captain_points = info_points cap,
                total_with_captain =
                  fadd (py_sum fadd (map predicted_points sel)) (info_points cap),
                selected_ids = map pid sel\<rparr>))"

text \<open>
  The rows of the pool a returned squad selected: those whose index label is among
  \<open>selected_ids\<close>, in pool order.
\<close>

definition selected_rows :: "players_df \<Rightarrow> squad \<Rightarrow> player list" where
  "selected_rows df sq = filter (\<lambda>r. pid r \<in> set (selected_ids sq)) (rows df)"

text \<open>
  \<open>out\<close> is \<open>inp\<close> sorted by falling predicted points with ties left in the order of
  \<open>inp\<close>: it is sorted, and for every value the players with that value appear in
  \<open>out\<close> as they do in \<open>inp\<close>.
\<close>

definition sorted_by_points_from :: "player_info list \<Rightarrow> player_info list \<Rightarrow> bool" where
  "sorted_by_points_from out inp \<longleftrightarrow>
     sorted_wrt (\<lambda>a b. info_points b \<le> info_points a) out \<and>
     (\<forall>k. filter (\<lambda>p. info_points p = k) out = filter (\<lambda>p. info_points p = k) inp)"

text \<open>The positions the four lists of the result are made for.\<close>

definition known_position :: "player \<Rightarrow> bool" where
  "known_position r \<longleftrightarrow> position r \<in> {''GK'', ''DEF'', ''MID'', ''FWD''}"

subsection \<open>A pool of fifteen and a solver for it\<close>

text \<open>
  Fifteen players, five defenders, five midfielders, three forwards and two goalkeepers in
  that row order, three from each of five teams, each priced 5. Defender 0 and goalkeeper
  13 share the greatest predicted points. Every price and every score is a multiple of
  one half, so the float sums of the code are exact on this pool and \<open>fadd\<close> is \<open>(+)\<close>
  there.
\<close>

definition pool15 :: players_df where
  "pool15 =
     \<lparr>rows =
       [\<lparr>pid = 0, name = ''D0'', team = ''Arsenal'', position = ''DEF'', price = 5, predicted_points = 10\<rparr>,
        \<lparr>pid = 1, name = ''D1'', team = ''Brentford'', position = ''DEF'', price = 5, predicted_points = 6\<rparr>,
        \<lparr>pid = 2, name = ''D2'', team = ''Chelsea'', position = ''DEF'', price = 5, predicted_points = 7\<rparr>,
        \<lparr>pid = 3, name = ''D3'', team = ''Everton'', position = ''DEF'', price = 5, predicted_points = 5\<rparr>,
        \<lparr>pid = 4, name = ''D4'', team = ''Fulham'', position = ''DEF'', price = 5, predicted_points = 4\<rparr>,
        \<lparr>pid = 5, name = ''M5'', team = ''Arsenal'', position = ''MID'', price = 5, predicted_points = 8\<rparr>,
        \<lparr>pid = 6, name = ''M6'', team = ''Brentford'', position = ''MID'', price = 5, predicted_points = 9\<rparr>,
        \<lparr>pid = 7, name = ''M7'', team = ''Chelsea'', position = ''MID'', price = 5, predicted_points = 3\<rparr>,
        \<lparr>pid = 8, name = ''M8'', team = ''Everton'', position = ''MID'', price = 5, predicted_points = 2\<rparr>,
        \<lparr>pid = 9, name = ''M9'', team = ''Fulham'', position = ''MID'', price = 5, predicted_points = 1\<rparr>,
        \<lparr>pid = 10, name = ''F10'', team = ''Arsenal'', position = ''FWD'', price = 5, predicted_points = 13 / 2\<rparr>,
        \<lparr>pid = 11, name = ''F11'', team = ''Brentford'', position = ''FWD'', price = 5, predicted_points = 11 / 2\<rparr>,
        \<lparr>pid = 12, name = ''F12'', team = ''Chelsea'', position = ''FWD'', price = 5, predicted_points = 9 / 2\<rparr>,
        \<lparr>pid = 13, name = ''G13'', team = ''Everton'', position = ''GK'', price = 5, predicted_points = 10\<rparr>,
        \<lparr>pid = 14, name = ''G14'', team = ''Fulham'', position = ''GK'', price = 5, predicted_points = 7 / 2\<rparr>],
      team_col = True\<rparr>"

text \<open>The same pool read from a frame that has no \<open>team\<close> column.\<close>

definition pool15_noteam :: players_df where
  "pool15_noteam = pool15\<lparr>team_col := False\<rparr>"

text \<open>
  A solver for pools of at most fifteen players: there the only selection of fifteen is
  the whole pool, so it is enough to try that one. Like the library it accepts a
  selection that meets the constraints up to a tolerance, here one millionth.
\<close>

definition cbc_tol :: real where
  "cbc_tol = 1 / 1000000"

definition pick_all :: solver where
  "pick_all p =
     (if lp_feasible_within cbc_tol p (indicator_of (variables p))
      then (1, indicator_of (variables p))
      else (- 1, \<lambda>i. 0))"

text \<open>The dict \<^verbatim>\<open>optimize_squad\<close> returns for \<open>pool15\<close> and a budget of 100.\<close>

definition squad15 :: squad where
  "squad15 =
     \<lparr>total_cost = 75,
      total_predicted = 85,
      goalkeepers =
       [\<lparr>info_name = ''G13'', info_team = ''Everton'', info_price = 5, info_points = 10\<rparr>,
        \<lparr>info_name = ''G14'', info_team = ''Fulham'', info_price = 5, info_points = 7 / 2\<rparr>],
      defenders =
       [\<lparr>info_name = ''D0'', info_team = ''Arsenal'', info_price = 5, info_points = 10\<rparr>,
        \<lparr>info_name = ''D2'', info_team = ''Chelsea'', info_price = 5, info_points = 7\<rparr>,
        \<lparr>info_name = ''D1'', info_team = ''Brentford'', info_price = 5, info_points = 6\<rparr>,
        \<lparr>info_name = ''D3'', info_team = ''Everton'', info_price = 5, info_points = 5\<rparr>,
        \<lparr>info_name = ''D4'', info_team = ''Fulham'', info_price = 5, info_points = 4\<rparr>],
      midfielders =
       [\<lparr>info_name = ''M6'', info_team = ''Brentford'', info_price = 5, info_points = 9\<rparr>,
        \<lparr>info_name = ''M5'', info_team = ''Arsenal'', info_price = 5, info_points = 8\<rparr>,
        \<lparr>info_name = ''M7'', info_team = ''Chelsea'', info_price = 5, info_points = 3\<rparr>,
        \<lparr>info_name = ''M8'', info_team = ''Everton'', info_price = 5, info_points = 2\<rparr>,
        \<lparr>info_name = ''M9'', info_team = ''Fulham'', info_price = 5, info_points = 1\<rparr>],
      forwards =
       [\<lparr>info_name = ''F10'', info_team = ''Arsenal'', info_price = 5, info_points = 13 / 2\<rparr>,
        \<lparr>info_name = ''F11'', info_team = ''Brentford'', info_price = 5, info_points = 11 / 2\<rparr>,
        \<lparr>info_name = ''F12'', info_team = ''Chelsea'', info_price = 5, info_points = 9 / 2\<rparr>],
      captain = ''G13'',
      captain_points = 10,
      total_with_captain = 95,
      selected_ids = [0, 1, 2, 3, 4, 5, 6, 7, 8, 9, 10, 11, 12, 13, 14]\<rparr>"

definition squad15_noteam :: squad where
  "squad15_noteam =
     \<lparr>total_cost = 75,
      total_predicted = 85,
      goalkeepers =
       [\<lparr>info_name = ''G13'', info_team = ''Unknown'', info_price = 5, info_points = 10\<rparr>,
        \<lparr>info_name = ''G14'', info_team = ''Unknown'', info_price = 5, info_points = 7 / 2\<rparr>],
      defenders =
       [\<lparr>info_name = ''D0'', info_team = ''Unknown'', info_price = 5, info_points = 10\<rparr>,
        \<lparr>info_name = ''D2'', info_team = ''Unknown'', info_price = 5, info_points = 7\<rparr>,
        \<lparr>info_name = ''D1'', info_team = ''Unknown'', info_price = 5, info_points = 6\<rparr>,
        \<lparr>info_name = ''D3'', info_team = ''Unknown'', info_price = 5, info_points = 5\<rparr>,
        \<lparr>info_name = ''D4'', info_team = ''Unknown'', info_price = 5, info_points = 4\<rparr>],
      midfielders =
       [\<lparr>info_name = ''M6'', info_team = ''Unknown'', info_price = 5, info_points = 9\<rparr>,
        \<lparr>info_name = ''M5'', info_team = ''Unknown'', info_price = 5, info_points = 8\<rparr>,
        \<lparr>info_name = ''M7'', info_team = ''Unknown'', info_price = 5, info_points = 3\<rparr>,
        \<lparr>info_name = ''M8'', info_team = ''Unknown'', info_price = 5, info_points = 2\<rparr>,
        \<lparr>info_name = ''M9'', info_team = ''Unknown'', info_price = 5, info_points = 1\<rparr>],
      forwards =
       [\<lparr>info_name = ''F10'', info_team = ''Unknown'', info_price = 5, info_points = 13 / 2\<rparr>,
        \<lparr>info_name = ''F11'', info_team = ''Unknown'', info_price = 5, info_points = 11 / 2\<rparr>,
        \<lparr>info_name = ''F12'', info_team = ''Unknown'', info_price = 5, info_points = 9 / 2\<rparr>],
      captain = ''G13'',
      captain_points = 10,
      total_with_captain = 95,
      selected_ids = [0, 1, 2, 3, 4, 5, 6, 7, 8, 9, 10, 11, 12, 13, 14]\<rparr>"

text \<open>How many players of the returned lists show team \<open>t\<close>.\<close>

definition team_count :: "string \<Rightarrow> squad \<Rightarrow> nat" where
  "team_count t sq = length (filter (\<lambda>p. info_team p = t) (all_players sq))"

text \<open>
  The captain in the words of the specification: the member with the greatest predicted
  score, the smallest index label among those that tie. \<open>None\<close> for an empty squad.
\<close>

fun spec_captain :: "player list \<Rightarrow> player option" where
  "spec_captain [] = None"
| "spec_captain (r # rs) =
     Some (fold (\<lambda>q best.
             if predicted_points best < predicted_points q
                \<or> (predicted_points q = predicted_points best \<and> pid q < pid best)
             then q else best) rs r)"

text \<open>Three pools that admit no squad, each for a different reason.\<close>

definition pool14 :: players_df where
  "pool14 = pool15\<lparr>rows := butlast (rows pool15)\<rparr>"

definition pool15_oneclub :: players_df where
  "pool15_oneclub = pool15\<lparr>rows := map (\<lambda>r. r\<lparr>team := ''Arsenal''\<rparr>) (rows pool15)\<rparr>"

definition low_budget :: real where
  "low_budget = 10"

text \<open>
  A budget one millionth below 75, the price of the fifteen players of \<open>pool15\<close>.
\<close>

definition tight_budget :: real where
  "tight_budget = 74999999 / 1000000"




text \<open>
  \<open>pool15\<close> with a sixteenth row whose position is none of the four: cheap, and with a
  predicted score above every other.
\<close>

definition manager15 :: player where
  "manager15 =
     \<lparr>pid = 15, name = ''X15'', team = ''Leeds'', position = ''MGR'', price = 1,
      predicted_points = 50\<rparr>"

definition pool16_manager :: players_df where
  "pool16_manager = pool15\<lparr>rows := rows pool15 @ [manager15]\<rparr>"

subsection \<open>Several squads: the assumption on the solver, and a pool of thirty\<close>

text \<open>The index labels selected in each returned squad, in the order of the list.\<close>

definition selected_of :: "squad_option list \<Rightarrow> int list list" where
  "selected_of squads = map (\<lambda>opt. selected_ids (option_squad opt)) squads"

text \<open>No index label occurs in two of the lists.\<close>

fun disjoint_squads :: "int list list \<Rightarrow> bool" where
  "disjoint_squads [] = True"
| "disjoint_squads (s # ss) = ((\<forall>t \<in> set ss. set s \<inter> set t = {}) \<and> disjoint_squads ss)"

text \<open>
  The solver keeps its contract in every round of a run of the loop that reaches
  \<^verbatim>\<open>optimize_squad\<close>: the rounds are followed as \<open>squads_loop\<close> follows them.
\<close>

fun contract_in_rounds ::
  "real \<Rightarrow> real \<Rightarrow> float_add \<Rightarrow> solver \<Rightarrow> players_df \<Rightarrow> real \<Rightarrow> int list \<Rightarrow> multi_state
   \<Rightarrow> bool" where
  "contract_in_rounds tol gap fadd solver df budget [] st = True"
| "contract_in_rounds tol gap fadd solver df budget (i # is) st =
     (length (rows (available df (snd st))) < 15 \<or>
      (cbc_contract tol gap solver (build_problem (available df (snd st)) budget) \<and>
       (case round_body fadd solver df budget i st of
          Inr (Next st') \<Rightarrow> contract_in_rounds tol gap fadd solver df budget is st'
        | _ \<Rightarrow> True)))"

text \<open>
  A solver that tries the first fifteen variables only, to the same tolerance. It keeps
  the contract where the first fifteen rows are a squad of players with the greatest
  predicted points, and on pools of at most fifteen.
\<close>

definition pick_first :: solver where
  "pick_first p =
     (if lp_feasible_within cbc_tol p (indicator_of (take 15 (variables p)))
      then (1, indicator_of (take 15 (variables p)))
      else (- 1, \<lambda>i. 0))"

text \<open>
  Thirty players, two full squads in row order: rows 0 to 14 with 2 predicted points
  each, rows 15 to 29 with 1 each; three players per team, each priced 3.
\<close>

definition pool30 :: players_df where
  "pool30 =
     \<lparr>rows =
       [\<lparr>pid = 0, name = ''A0'', team = ''Arsenal'', position = ''DEF'', price = 3, predicted_points = 2\<rparr>,
        \<lparr>pid = 1, name = ''A1'', team = ''Arsenal'', position = ''DEF'', price = 3, predicted_points = 2\<rparr>,
        \<lparr>pid = 2, name = ''A2'', team = ''Arsenal'', position = ''DEF'', price = 3, predicted_points = 2\<rparr>,
        \<lparr>pid = 3, name = ''A3'', team = ''Brentford'', position = ''DEF'', price = 3, predicted_points = 2\<rparr>,
        \<lparr>pid = 4, name = ''A4'', team = ''Brentford'', position = ''DEF'', price = 3, predicted_points = 2\<rparr>,
        \<lparr>pid = 5, name = ''A5'', team = ''Brentford'', position = ''MID'', price = 3, predicted_points = 2\<rparr>,
        \<lparr>pid = 6, name = ''A6'', team = ''Chelsea'', position = ''MID'', price = 3, predicted_points = 2\<rparr>,
        \<lparr>pid = 7, name = ''A7'', team = ''Chelsea'', position = ''MID'', price = 3, predicted_points = 2\<rparr>,
        \<lparr>pid = 8, name = ''A8'', team = ''Chelsea'', position = ''MID'', price = 3, predicted_points = 2\<rparr>,
        \<lparr>pid = 9, name = ''A9'', team = ''Everton'', position = ''MID'', price = 3, predicted_points = 2\<rparr>,
        \<lparr>pid = 10, name = ''A10'', team = ''Everton'', position = ''FWD'', price = 3, predicted_points = 2\<rparr>,
        \<lparr>pid = 11, name = ''A11'', team = ''Everton'', position = ''FWD'', price = 3, predicted_points = 2\<rparr>,
        \<lparr>pid = 12, name = ''A12'', team = ''Fulham'', position = ''FWD'', price = 3, predicted_points = 2\<rparr>,
        \<lparr>pid = 13, name = ''A13'', team = ''Fulham'', position = ''GK'', price = 3, predicted_points = 2\<rparr>,
        \<lparr>pid = 14, name = ''A14'', team = ''Fulham'', position = ''GK'', price = 3, predicted_points = 2\<rparr>,
        \<lparr>pid = 15, name = ''B15'', team = ''Leeds'', position = ''DEF'', price = 3, predicted_points = 1\<rparr>,
        \<lparr>pid = 16, name = ''B16'', team = ''Leeds'', position = ''DEF'', price = 3, predicted_points = 1\<rparr>,
        \<lparr>pid = 17, name = ''B17'', team = ''Leeds'', position = ''DEF'', price = 3, predicted_points = 1\<rparr>,
        \<lparr>pid = 18, name = ''B18'', team = ''Liverpool'', position = ''DEF'', price = 3, predicted_points = 1\<rparr>,
        \<lparr>pid = 19, name = ''B19'', team = ''Liverpool'', position = ''DEF'', price = 3, predicted_points = 1\<rparr>,
        \<lparr>pid = 20, name = ''B20'', team = ''Liverpool'', position = ''MID'', price = 3, predicted_points = 1\<rparr>,
        \<lparr>pid = 21, name = ''B21'', team = ''Newcastle'', position = ''MID'', price = 3, predicted_points = 1\<rparr>,
        \<lparr>pid = 22, name = ''B22'', team = ''Newcastle'', position = ''MID'', price = 3, predicted_points = 1\<rparr>,
        \<lparr>pid = 23, name = ''B23'', team = ''Newcastle'', position = ''MID'', price = 3, predicted_points = 1\<rparr>,
        \<lparr>pid = 24, name = ''B24'', team = ''Spurs'', position = ''MID'', price = 3, predicted_points = 1\<rparr>,
        \<lparr>pid = 25, name = ''B25'', team = ''Spurs'', position = ''FWD'', price = 3, predicted_points = 1\<rparr>,
        \<lparr>pid = 26, name = ''B26'', team = ''Spurs'', position = ''FWD'', price = 3, predicted_points = 1\<rparr>,
        \<lparr>pid = 27, name = ''B27'', team = ''Wolves'', position = ''FWD'', price = 3, predicted_points = 1\<rparr>,
        \<lparr>pid = 28, name = ''B28'', team = ''Wolves'', position = ''GK'', price = 3, predicted_points = 1\<rparr>,
        \<lparr>pid = 29, name = ''B29'', team = ''Wolves'', position = ''GK'', price = 3, predicted_points = 1\<rparr>],
      team_col = True\<rparr>"

text \<open>The same pool, with the player of row 15 carrying the name of the player of row 0.\<close>

definition pool30_samename :: players_df where
  "pool30_samename =
     pool30\<lparr>rows := map (\<lambda>r. if pid r = 15 then r\<lparr>name := ''A0''\<rparr> else r) (rows pool30)\<rparr>"

section \<open>Dictionaries and sums over the pool\<close>

lemma update_fresh: "k \<notin> fst ` set ps \<Longrightarrow> AList.update k v ps = ps @ [(k, v)]"
  by (induction ps) auto

lemma fold_update_distinct:
  "distinct (map fst acc @ map pid rs) \<Longrightarrow>
   fold (\<lambda>r d. AList.update (pid r) (col r) d) rs acc = acc @ map (\<lambda>r. (pid r, col r)) rs"
proof (induction rs arbitrary: acc)
  case Nil
  then show ?case by simp
next
  case (Cons r rs)
  have fresh: "pid r \<notin> fst ` set acc" using Cons.prems by auto
  have "distinct (map fst (acc @ [(pid r, col r)]) @ map pid rs)"
    using Cons.prems by auto
  from Cons.IH[OF this] show ?case by (simp add: update_fresh[OF fresh])
qed

lemma to_dict_distinct:
  "distinct (index_tolist df) \<Longrightarrow> to_dict col df = map (\<lambda>r. (pid r, col r)) (rows df)"
  using fold_update_distinct[of "[]" "rows df" col] by (simp add: to_dict_def index_tolist_def)

lemma keys_fold_update:
  "fst ` set (fold (\<lambda>r d. AList.update (pid r) (col r) d) rs acc) = fst ` set acc \<union> pid ` set rs"
  by (induction rs arbitrary: acc) (auto simp: dom_update image_iff)

lemma to_dict_defined: "i \<in> set (index_tolist df) \<Longrightarrow> map_of (to_dict col df) i \<noteq> None"
proof -
  assume "i \<in> set (index_tolist df)"
  then have "i \<in> fst ` set (to_dict col df)"
    unfolding to_dict_def keys_fold_update by (simp add: index_tolist_def)
  then show ?thesis by (simp add: map_of_eq_None_iff)
qed

lemma lookup_row:
  "distinct (map pid rs) \<Longrightarrow> r \<in> set rs \<Longrightarrow>
   map_of (map (\<lambda>r. (pid r, col r)) rs) (pid r) = Some (col r)"
  by (induction rs) (auto simp: image_iff)

lemma to_dict_lookup:
  "distinct (index_tolist df) \<Longrightarrow> r \<in> set (rows df) \<Longrightarrow>
   map_of (to_dict col df) (pid r) = Some (col r)"
  by (simp add: to_dict_distinct lookup_row index_tolist_def)

lemma dict_at_row:
  "distinct (index_tolist df) \<Longrightarrow> r \<in> set (rows df) \<Longrightarrow> dict_at (to_dict col df) (pid r) = col r"
  by (simp add: dict_at_def to_dict_lookup)

lemma sum_binary:
  "\<forall>r \<in> set rs. x (pid r) = 0 \<or> x (pid r) = (1::real) \<Longrightarrow>
   (\<Sum>r\<leftarrow>rs. c r * x (pid r)) = (\<Sum>r\<leftarrow>filter (\<lambda>r. x (pid r) = 1) rs. c r)"
  by (induction rs) auto

lemma lp_value_lp_sum: "lp_value (lp_sum c ids) x = (\<Sum>i\<leftarrow>ids. c i * x i)"
  by (simp add: lp_value_def lp_sum_def comp_def)

lemma lp_value_rows:
  assumes "binary_on df x"
  shows "lp_value (lp_sum c (map pid (filter Q (rows df)))) x
         = (\<Sum>r\<leftarrow>filter Q (chosen df x). c (pid r))"
proof -
  have b: "\<forall>r \<in> set (filter Q (rows df)). x (pid r) = 0 \<or> x (pid r) = 1"
    using assms by (simp add: binary_on_def)
  have "lp_value (lp_sum c (map pid (filter Q (rows df)))) x
        = (\<Sum>r\<leftarrow>filter Q (rows df). c (pid r) * x (pid r))"
    by (simp add: lp_value_lp_sum comp_def)
  also have "\<dots> = (\<Sum>r\<leftarrow>filter (\<lambda>r. x (pid r) = 1) (filter Q (rows df)). c (pid r))"
    by (rule sum_binary[OF b])
  also have "filter (\<lambda>r. x (pid r) = 1) (filter Q (rows df)) = filter Q (chosen df x)"
    by (simp add: chosen_def conj_commute)
  finally show ?thesis .
qed

lemma ids_at_rows:
  assumes "distinct (index_tolist df)"
  shows "filter (\<lambda>i. map_of (to_dict col df) i = Some v) (index_tolist df)
         = map pid (filter (\<lambda>r. col r = v) (rows df))"
proof -
  have "filter ((\<lambda>i. map_of (to_dict col df) i = Some v) \<circ> pid) (rows df)
        = filter (\<lambda>r. col r = v) (rows df)"
    by (rule filter_cong) (auto simp: to_dict_lookup[OF assms])
  then show ?thesis by (simp add: index_tolist_def filter_map)
qed

section \<open>Selections as sublists of the pool\<close>

lemma filter_in_subseqs: "filter P xs \<in> set (subseqs xs)"
  by (induction xs) (auto simp: Let_def)

lemma subseqs_subset: "ys \<in> set (subseqs xs) \<Longrightarrow> set ys \<subseteq> set xs"
  by (induction xs arbitrary: ys) (fastforce simp: Let_def)+

lemma subseqs_map_eq: "subseqs (map f xs) = map (map f) (subseqs xs)"
  by (induction xs) (simp_all add: Let_def)

lemma filter_subseq_id:
  "distinct (map pid rs) \<Longrightarrow> sel \<in> set (subseqs rs) \<Longrightarrow>
   filter (\<lambda>r. pid r \<in> pid ` set sel) rs = sel"
proof (induction rs arbitrary: sel)
  case Nil
  then show ?case by simp
next
  case (Cons r rs)
  from Cons.prems(1) have d: "distinct (map pid rs)" and fresh: "pid r \<notin> pid ` set rs"
    by auto
  from Cons.prems(2) consider
    (take) t where "sel = r # t" "t \<in> set (subseqs rs)" | (skip) "sel \<in> set (subseqs rs)"
    by (auto simp: Let_def)
  then show ?case
  proof cases
    case take
    have "pid ` set t \<subseteq> pid ` set rs" using subseqs_subset[OF take(2)] by auto
    have "filter (\<lambda>q. pid q \<in> pid ` set sel) rs = filter (\<lambda>q. pid q \<in> pid ` set t) rs"
      by (rule filter_cong) (use fresh take(1) in \<open>auto simp: image_iff\<close>)
    then show ?thesis using Cons.IH[OF d take(2)] take(1) by simp
  next
    case skip
    have "pid ` set sel \<subseteq> pid ` set rs" using subseqs_subset[OF skip] by auto
    then have "pid r \<notin> pid ` set sel" using fresh by auto
    then show ?thesis using Cons.IH[OF d skip] by simp
  qed
qed

lemma chosen_indicator:
  "distinct (index_tolist df) \<Longrightarrow> sel \<in> set (subseqs (rows df)) \<Longrightarrow>
   chosen df (indicator_of (map pid sel)) = sel"
  using filter_subseq_id[of "rows df" sel]
  by (simp add: chosen_def indicator_of_def index_tolist_def)

lemma chosen_in_subseqs: "chosen df x \<in> set (subseqs (rows df))"
  by (simp add: chosen_def filter_in_subseqs)

lemma binary_indicator: "binary_on df (indicator_of s)"
  by (simp add: binary_on_def indicator_of_def)

lemma chosen_subset: "set (chosen df x) \<subseteq> set (rows df)"
  by (auto simp: chosen_def)

subsection \<open>What the constraints say about the chosen rows\<close>

lemma satisfies_count:
  assumes "binary_on df x"
  shows "satisfies x \<lparr>lhs = lp_sum (\<lambda>i. 1) (map pid (filter Q (rows df))), sense = LpLE, rhs = 3\<rparr>
         \<longleftrightarrow> length (filter Q (chosen df x)) \<le> 3"
proof -
  have "(\<Sum>r\<leftarrow>filter Q (chosen df x). (1::real)) = real (length (filter Q (chosen df x)))"
    by (simp add: sum_list_triv)
  then show ?thesis by (simp add: satisfies_def lp_value_rows[OF assms])
qed

lemma satisfies_eq_count:
  assumes "binary_on df x"
  shows "satisfies x \<lparr>lhs = lp_sum (\<lambda>i. 1) (map pid (filter Q (rows df))), sense = LpEQ, rhs = real n\<rparr>
         \<longleftrightarrow> length (filter Q (chosen df x)) = n"
proof -
  have "(\<Sum>r\<leftarrow>filter Q (chosen df x). (1::real)) = real (length (filter Q (chosen df x)))"
    by (simp add: sum_list_triv)
  then show ?thesis by (simp add: satisfies_def lp_value_rows[OF assms])
qed

lemma team_constraints_iff:
  assumes d: "distinct (index_tolist df)" and b: "binary_on df x"
  shows "(\<forall>c \<in> set (team_constraints (teams_of df) (index_tolist df)). satisfies x c)
         \<longleftrightarrow> (team_col df \<longrightarrow> (\<forall>r \<in> set (chosen df x). count_team (team r) (chosen df x) \<le> 3))"
proof (cases "team_col df")
  case False
  then show ?thesis by (simp add: teams_of_def team_constraints_def)
next
  case True
  have teams: "teams_of df = map (\<lambda>r. (pid r, team r)) (rows df)"
    using True by (simp add: teams_of_def to_dict_distinct[OF d])
  have tp: "filter (\<lambda>i. map_of (teams_of df) i = Some t) (index_tolist df)
            = map pid (filter (\<lambda>r. team r = t) (rows df))" for t
    using True ids_at_rows[OF d, of team t] by (simp add: teams_of_def)
  have cs: "set (team_constraints (teams_of df) (index_tolist df))
        = (\<lambda>t. \<lparr>lhs = lp_sum (\<lambda>i. 1) (map pid (filter (\<lambda>r. team r = t) (rows df))),
                 sense = LpLE, rhs = 3\<rparr>) ` team ` set (rows df)"
    unfolding team_constraints_def tp
    by (auto simp: teams Let_def comp_def filter_empty_conv image_iff split: if_splits)
  have "(\<forall>c \<in> set (team_constraints (teams_of df) (index_tolist df)). satisfies x c)
        \<longleftrightarrow> (\<forall>t \<in> team ` set (rows df). count_team t (chosen df x) \<le> 3)"
    unfolding cs by (simp add: satisfies_count[OF b] count_team_def)
  also have "\<dots> \<longleftrightarrow> (\<forall>r \<in> set (chosen df x). count_team (team r) (chosen df x) \<le> 3)"
  proof
    assume "\<forall>t \<in> team ` set (rows df). count_team t (chosen df x) \<le> 3"
    then show "\<forall>r \<in> set (chosen df x). count_team (team r) (chosen df x) \<le> 3"
      using chosen_subset[of df x] by auto
  next
    assume h: "\<forall>r \<in> set (chosen df x). count_team (team r) (chosen df x) \<le> 3"
    show "\<forall>t \<in> team ` set (rows df). count_team t (chosen df x) \<le> 3"
    proof
      fix t assume "t \<in> team ` set (rows df)"
      show "count_team t (chosen df x) \<le> 3"
      proof (cases "\<exists>r \<in> set (chosen df x). team r = t")
        case True
        then show ?thesis using h by auto
      next
        case False
        then have "filter (\<lambda>r. team r = t) (chosen df x) = []"
          by (auto simp: filter_empty_conv)
        then show ?thesis by (simp add: count_team_def)
      qed
    qed
  qed
  finally show ?thesis using True by simp
qed

lemma build_problem_simps:
  "variables (build_problem df budget) = index_tolist df"
  "objective (build_problem df budget) = lp_sum (dict_at (to_dict predicted_points df)) (index_tolist df)"
  by (simp_all add: build_problem_def Let_def)

lemma binary_on_vars:
  "(\<forall>i \<in> set (variables (build_problem df budget)). x i = 0 \<or> x i = 1) \<longleftrightarrow> binary_on df x"
  by (simp add: build_problem_simps binary_on_def index_tolist_def)

lemma lp_value_col:
  assumes d: "distinct (index_tolist df)" and b: "binary_on df x"
  shows "lp_value (lp_sum (dict_at (to_dict col df)) (index_tolist df)) x
         = sum_list (map col (chosen df x))"
proof -
  have "lp_value (lp_sum (dict_at (to_dict col df)) (map pid (filter (\<lambda>r. True) (rows df)))) x
        = (\<Sum>r\<leftarrow>filter (\<lambda>r. True) (chosen df x). dict_at (to_dict col df) (pid r))"
    by (rule lp_value_rows[OF b])
  also have "\<dots> = (\<Sum>r\<leftarrow>chosen df x. col r)"
    using chosen_subset[of df x]
    by (auto intro!: arg_cong[where f=sum_list] map_cong simp: dict_at_row[OF d])
  finally show ?thesis by (simp add: index_tolist_def)
qed

lemma objective_score:
  "distinct (index_tolist df) \<Longrightarrow> binary_on df x \<Longrightarrow>
   lp_value (objective (build_problem df budget)) x = score (chosen df x)"
  by (simp add: build_problem_simps lp_value_col score_def)

lemma size_constraint:
  assumes b: "binary_on df x"
  shows "satisfies x \<lparr>lhs = lp_sum (\<lambda>i. 1) (index_tolist df), sense = LpEQ, rhs = 15\<rparr>
         \<longleftrightarrow> length (chosen df x) = 15"
  using satisfies_eq_count[OF b, of "\<lambda>r. True" 15] by (simp add: index_tolist_def)

lemma quota_constraint:
  assumes d: "distinct (index_tolist df)" and b: "binary_on df x"
  shows "satisfies x \<lparr>lhs = lp_sum (\<lambda>i. 1) (ids_at (to_dict position df) (index_tolist df) pos),
                      sense = LpEQ, rhs = real n\<rparr>
         \<longleftrightarrow> count_pos pos (chosen df x) = n"
  using satisfies_eq_count[OF b, of "\<lambda>r. position r = pos" n]
  by (simp add: ids_at_def ids_at_rows[OF d] count_pos_def)

lemma budget_constraint:
  assumes d: "distinct (index_tolist df)" and b: "binary_on df x"
  shows "satisfies x \<lparr>lhs = lp_sum (dict_at (to_dict price df)) (index_tolist df),
                      sense = LpLE, rhs = budget\<rparr>
         \<longleftrightarrow> sum_list (map price (chosen df x)) \<le> budget"
  by (simp add: satisfies_def lp_value_col[OF d b])

lemma constraints_iff:
  assumes d: "distinct (index_tolist df)" and b: "binary_on df x"
  shows "(\<forall>c \<in> set (constraints (build_problem df budget)). satisfies x c)
         \<longleftrightarrow> squad_ok df budget (chosen df x)"
proof -
  have q: "satisfies x \<lparr>lhs = lp_sum (\<lambda>i. 1) (ids_at (to_dict position df) (index_tolist df) pos),
                      sense = LpEQ, rhs = real n\<rparr>
         \<longleftrightarrow> count_pos pos (chosen df x) = n" for pos n
    by (rule quota_constraint[OF d b])
  show ?thesis
    unfolding build_problem_def Let_def squad_ok_def
    using q[of "''GK''" 2] q[of "''DEF''" 5] q[of "''MID''" 5] q[of "''FWD''" 3]
    by (simp add: ball_Un budget_constraint[OF d b] size_constraint[OF b]
          team_constraints_iff[OF d b] conj_ac)
qed

lemma lp_feasible_iff:
  assumes d: "distinct (index_tolist df)"
  shows "lp_feasible (build_problem df budget) x
         \<longleftrightarrow> binary_on df x \<and> squad_ok df budget (chosen df x)"
  using constraints_iff[OF d] by (auto simp: lp_feasible_def binary_on_vars)

lemma lp_feasible_indicator:
  assumes d: "distinct (index_tolist df)" and s: "sel \<in> set (subseqs (rows df))"
  shows "lp_feasible (build_problem df budget) (indicator_of (map pid sel))
         \<longleftrightarrow> feasible_squad df budget sel"
  by (simp add: lp_feasible_iff[OF d] binary_indicator chosen_indicator[OF d s] feasible_squad_def s)

subsection \<open>Constraints up to a tolerance\<close>

text \<open>
  A sum of 0/1 variables with coefficients 1 is a whole number, so a constraint that
  compares it with a whole number holds up to a tolerance below 1 exactly when it holds.
  Of the constraints \<open>build_problem\<close> builds only the budget row is not of that kind:
  meeting the program up to \<open>tol\<close> is meeting the program with the budget raised by
  \<open>tol\<close>.
\<close>

lemma lp_value_count:
  "\<forall>i \<in> set ids. x i = 0 \<or> x i = 1 \<Longrightarrow>
   lp_value (lp_sum (\<lambda>i. 1) ids) x = real (length (filter (\<lambda>i. x i = 1) ids))"
  by (induction ids) (auto simp: lp_value_def lp_sum_def)

lemma satisfies_within_count:
  assumes "0 \<le> tol" and "tol < 1" and "\<forall>i \<in> set ids. x i = 0 \<or> x i = 1"
  shows "satisfies_within tol x \<lparr>lhs = lp_sum (\<lambda>i. 1) ids, sense = sn, rhs = real k\<rparr>
         \<longleftrightarrow> satisfies x \<lparr>lhs = lp_sum (\<lambda>i. 1) ids, sense = sn, rhs = real k\<rparr>"
proof (cases sn)
  case LpLE
  then show ?thesis using assms(1,2)
    by (auto simp: satisfies_within_def satisfies_def lp_value_count[OF assms(3)])
next
  case LpEQ
  then show ?thesis using assms(1,2)
    by (auto simp: satisfies_within_def satisfies_def lp_value_count[OF assms(3)])
qed

lemma team_constraint_form:
  assumes "c \<in> set (team_constraints teams ids)"
  shows "\<exists>t. c = \<lparr>lhs = lp_sum (\<lambda>i. 1) (filter (\<lambda>i. map_of teams i = Some t) ids),
                  sense = LpLE, rhs = real 3\<rparr>"
  using assms by (auto simp: team_constraints_def Let_def split: if_splits)

lemma team_constraints_within:
  assumes "0 \<le> tol" and "tol < 1" and b: "\<forall>i \<in> set ids. x i = 0 \<or> x i = 1"
    and c: "c \<in> set (team_constraints teams ids)"
  shows "satisfies_within tol x c \<longleftrightarrow> satisfies x c"
proof -
  from team_constraint_form[OF c] obtain t where
    e: "c = \<lparr>lhs = lp_sum (\<lambda>i. 1) (filter (\<lambda>i. map_of teams i = Some t) ids),
             sense = LpLE, rhs = real 3\<rparr>" ..
  have "\<forall>i \<in> set (filter (\<lambda>i. map_of teams i = Some t) ids). x i = 0 \<or> x i = 1"
    using b by simp
  from satisfies_within_count[OF assms(1,2) this] show ?thesis unfolding e .
qed

lemma constraints_within:
  assumes t0: "0 \<le> tol" and t1: "tol < 1"
    and b: "\<forall>i \<in> set (index_tolist df). x i = 0 \<or> x i = 1"
  shows "(\<forall>c \<in> set (constraints (build_problem df budget)). satisfies_within tol x c)
         \<longleftrightarrow> (\<forall>c \<in> set (constraints (build_problem df (budget + tol))). satisfies x c)"
proof -
  have q: "satisfies_within tol x
             \<lparr>lhs = lp_sum (\<lambda>i. 1) (ids_at (to_dict position df) (index_tolist df) pos),
              sense = LpEQ, rhs = real k\<rparr>
           \<longleftrightarrow> satisfies x
             \<lparr>lhs = lp_sum (\<lambda>i. 1) (ids_at (to_dict position df) (index_tolist df) pos),
              sense = LpEQ, rhs = real k\<rparr>" for pos k
    by (rule satisfies_within_count[OF t0 t1]) (use b in \<open>simp add: ids_at_def\<close>)
  have n: "satisfies_within tol x \<lparr>lhs = lp_sum (\<lambda>i. 1) (index_tolist df), sense = LpEQ, rhs = real 15\<rparr>
           \<longleftrightarrow> satisfies x \<lparr>lhs = lp_sum (\<lambda>i. 1) (index_tolist df), sense = LpEQ, rhs = real 15\<rparr>"
    by (rule satisfies_within_count[OF t0 t1 b])
  have bud: "satisfies_within tol x \<lparr>lhs = l, sense = LpLE, rhs = budget\<rparr>
             \<longleftrightarrow> satisfies x \<lparr>lhs = l, sense = LpLE, rhs = budget + tol\<rparr>" for l
    by (simp add: satisfies_within_def satisfies_def)
  have tm: "(\<forall>c \<in> set (team_constraints (teams_of df) (index_tolist df)). satisfies_within tol x c)
            \<longleftrightarrow> (\<forall>c \<in> set (team_constraints (teams_of df) (index_tolist df)). satisfies x c)"
    using team_constraints_within[OF t0 t1 b] by blast
  show ?thesis
    unfolding build_problem_def Let_def
    using q[of "''GK''" 2] q[of "''DEF''" 5] q[of "''MID''" 5] q[of "''FWD''" 3] n
    by (simp add: ball_Un bud tm)
qed

lemma lp_feasible_within_iff:
  assumes "0 \<le> tol" and "tol < 1"
  shows "lp_feasible_within tol (build_problem df budget) x
         \<longleftrightarrow> lp_feasible (build_problem df (budget + tol)) x"
  using constraints_within[OF assms, of df x budget]
  by (auto simp: lp_feasible_within_def lp_feasible_def build_problem_simps)

lemma squad_ok_mono:
  "budget \<le> budget' \<Longrightarrow> squad_ok df budget sel \<Longrightarrow> squad_ok df budget' sel"
  by (auto simp: squad_ok_def)

lemma feasible_squad_mono:
  "budget \<le> budget' \<Longrightarrow> feasible_squad df budget sel \<Longrightarrow> feasible_squad df budget' sel"
  by (auto simp: feasible_squad_def intro: squad_ok_mono)

subsection \<open>What the solver's contract gives\<close>

lemma selection_of_sublist:
  "s \<in> set (subseqs (variables (build_problem df budget)))
   \<longleftrightarrow> (\<exists>sel \<in> set (subseqs (rows df)). s = map pid sel)"
  by (auto simp: build_problem_simps index_tolist_def subseqs_map_eq)

lemma exists_feasible_iff:
  assumes d: "distinct (index_tolist df)"
  shows "(\<exists>s \<in> set (subseqs (variables (build_problem df budget))).
            lp_feasible (build_problem df budget) (indicator_of s))
         \<longleftrightarrow> (\<exists>sel. feasible_squad df budget sel)"
proof
  assume "\<exists>s \<in> set (subseqs (variables (build_problem df budget))).
            lp_feasible (build_problem df budget) (indicator_of s)"
  then obtain sel where s: "sel \<in> set (subseqs (rows df))"
    and f: "lp_feasible (build_problem df budget) (indicator_of (map pid sel))"
    by (auto simp: selection_of_sublist)
  then show "\<exists>sel. feasible_squad df budget sel"
    using lp_feasible_indicator[OF d s] by blast
next
  assume "\<exists>sel. feasible_squad df budget sel"
  then obtain sel where f: "feasible_squad df budget sel" ..
  then have s: "sel \<in> set (subseqs (rows df))" by (simp add: feasible_squad_def)
  have "map pid sel \<in> set (subseqs (variables (build_problem df budget)))"
    using s by (auto simp: selection_of_sublist)
  moreover have "lp_feasible (build_problem df budget) (indicator_of (map pid sel))"
    using lp_feasible_indicator[OF d s] f by simp
  ultimately show "\<exists>s \<in> set (subseqs (variables (build_problem df budget))).
            lp_feasible (build_problem df budget) (indicator_of s)" by blast
qed


lemma contract_optimal:
  assumes d: "distinct (index_tolist df)"
    and t0: "0 \<le> tol" and t1: "tol < 1"
    and c: "cbc_contract tol gap solver (build_problem df budget)"
    and s: "solver (build_problem df budget) = (1, x)"
  shows "binary_on df x" and "squad_ok df (budget + tol) (chosen df x)"
    and "feasible_squad df budget sel \<Longrightarrow> score sel \<le> score (chosen df x) + gap"
proof -
  from c s have f: "lp_feasible_within tol (build_problem df budget) x"
    and opt: "\<forall>s \<in> set (subseqs (variables (build_problem df budget))).
               lp_feasible (build_problem df budget) (indicator_of s) \<longrightarrow>
               lp_value (objective (build_problem df budget)) (indicator_of s)
               \<le> lp_value (objective (build_problem df budget)) x + gap"
    unfolding cbc_contract_def by auto
  from f have f': "lp_feasible (build_problem df (budget + tol)) x"
    by (simp add: lp_feasible_within_iff[OF t0 t1])
  from f' show b: "binary_on df x" and "squad_ok df (budget + tol) (chosen df x)"
    by (simp_all add: lp_feasible_iff[OF d])
  assume fs: "feasible_squad df budget sel"
  then have sel: "sel \<in> set (subseqs (rows df))" by (simp add: feasible_squad_def)
  have m: "map pid sel \<in> set (subseqs (variables (build_problem df budget)))"
    using sel by (auto simp: selection_of_sublist)
  have "lp_value (objective (build_problem df budget)) (indicator_of (map pid sel))
        \<le> lp_value (objective (build_problem df budget)) x + gap"
    using opt m lp_feasible_indicator[OF d sel] fs by blast
  then show "score sel \<le> score (chosen df x) + gap"
    by (simp add: objective_score[OF d] b binary_indicator chosen_indicator[OF d sel])
qed

lemma chosen_feasible:
  "squad_ok df budget (chosen df x) \<Longrightarrow> feasible_squad df budget (chosen df x)"
  by (simp add: feasible_squad_def chosen_in_subseqs)

lemma contract_failed:
  assumes d: "distinct (index_tolist df)"
    and t0: "0 \<le> tol" and t1: "tol < 1"
    and c: "cbc_contract tol gap solver (build_problem df budget)"
    and none: "\<And>sel. \<not> feasible_squad df (budget + tol) sel"
  shows "fst (solver (build_problem df budget)) \<noteq> 1"
proof
  assume one: "fst (solver (build_problem df budget)) = 1"
  define x where "x = snd (solver (build_problem df budget))"
  have sx: "solver (build_problem df budget) = (1, x)"
    using one by (simp add: x_def prod_eq_iff)
  from chosen_feasible[OF contract_optimal(2)[OF d t0 t1 c sx]] none show False by blast
qed

text \<open>Ways to establish the contract for a given solver and pool.\<close>

lemma contract_by_optimum:
  assumes d: "distinct (index_tolist df)"
    and t0: "0 \<le> tol" and t1: "tol < 1"
    and s: "solver (build_problem df budget) = (1, indicator_of (map pid best))"
    and f: "feasible_squad df (budget + tol) best"
    and opt: "\<And>sel. feasible_squad df budget sel \<Longrightarrow> score sel \<le> score best + gap"
  shows "cbc_contract tol gap solver (build_problem df budget)"
proof -
  have b: "best \<in> set (subseqs (rows df))" using f by (simp add: feasible_squad_def)
  have lf: "lp_feasible_within tol (build_problem df budget) (indicator_of (map pid best))"
    using lp_feasible_indicator[OF d b, of "budget + tol"] f
    by (simp add: lp_feasible_within_iff[OF t0 t1])
  have "lp_value (objective (build_problem df budget)) (indicator_of s)
        \<le> lp_value (objective (build_problem df budget)) (indicator_of (map pid best)) + gap"
    if s: "s \<in> set (subseqs (variables (build_problem df budget)))"
      and fs: "lp_feasible (build_problem df budget) (indicator_of s)" for s
  proof -
    from s obtain sel where sel: "sel \<in> set (subseqs (rows df))" and e: "s = map pid sel"
      by (auto simp: selection_of_sublist)
    have "feasible_squad df budget sel" using fs lp_feasible_indicator[OF d sel] e by simp
    from opt[OF this] show ?thesis
      by (simp add: e objective_score[OF d] binary_indicator chosen_indicator[OF d] sel b)
  qed
  then show ?thesis
    unfolding cbc_contract_def using lf by (simp add: s)
qed

lemma contract_by_infeasible:
  assumes d: "distinct (index_tolist df)"
    and s: "fst (solver (build_problem df budget)) \<noteq> 1"
    and none: "\<And>sel. \<not> feasible_squad df budget sel"
  shows "cbc_contract tol gap solver (build_problem df budget)"
  unfolding cbc_contract_def exists_feasible_iff[OF d] using s none
  by (auto split: prod.splits)

subsection \<open>The result over the chosen rows\<close>

lemma selected_ids_rows: "filter (\<lambda>i. x i = 1) (index_tolist df) = map pid (chosen df x)"
  by (simp add: index_tolist_def chosen_def filter_map comp_def)

lemma info_of_row:
  assumes d: "distinct (index_tolist df)" and r: "r \<in> set (rows df)"
  shows "info_of (to_dict name df) (teams_of df) (to_dict price df) (to_dict predicted_points df) (pid r)
         = info_row df r"
  by (simp add: info_of_def info_row_def teams_of_def dict_at_row[OF d r] to_dict_lookup[OF d r])

lemma players_at_rows:
  assumes d: "distinct (index_tolist df)" and sub: "set sel \<subseteq> set (rows df)"
  shows "players_at (to_dict position df)
           (info_of (to_dict name df) (teams_of df) (to_dict price df) (to_dict predicted_points df))
           (map pid sel) pos
         = listed df sel pos"
proof -
  have "filter ((\<lambda>i. map_of (to_dict position df) i = Some pos) \<circ> pid) sel
        = filter (\<lambda>r. position r = pos) sel"
    by (rule filter_cong) (use sub in \<open>auto simp: to_dict_lookup[OF d]\<close>)
  then show ?thesis
    using sub by (auto simp: players_at_def listed_def filter_map info_of_row[OF d])
qed

lemma map_dict_rows:
  assumes d: "distinct (index_tolist df)" and sub: "set sel \<subseteq> set (rows df)"
  shows "map (dict_at (to_dict col df)) (map pid sel) = map col sel"
proof -
  have "map (dict_at (to_dict col df) \<circ> pid) sel = map col sel"
    by (rule map_cong) (use sub in \<open>auto simp: dict_at_row[OF d]\<close>)
  then show ?thesis by (simp only: map_map)
qed

lemma build_squad_rows:
  assumes d: "distinct (index_tolist df)"
  shows "build_squad fadd df x = squad_from_rows fadd df (chosen df x)"
  unfolding build_squad_def squad_from_rows_def Let_def selected_ids_rows
    players_at_rows[OF d chosen_subset] map_dict_rows[OF d chosen_subset] ..

lemma optimize_squad_rows:
  assumes d: "distinct (index_tolist df)" and s: "solver (build_problem df budget) = (st, x)"
  shows "optimize_squad fadd solver df budget =
           (if st \<noteq> 1 then Inr (Failed ''No optimal solution found'')
            else squad_from_rows fadd df (chosen df x))"
  by (simp add: optimize_squad_def s build_squad_rows[OF d])

lemma py_sum_exact: "py_sum (+) xs = sum_list xs"
proof -
  have "foldl (+) a xs = a + sum_list xs" for a :: real
    by (induction xs arbitrary: a) simp_all
  then show ?thesis by (simp add: py_sum_def)
qed

subsection \<open>The captain\<close>

lemma fold_max_cases:
  "fold (\<lambda>y best. if f best < f y then y else best) ys b = m \<Longrightarrow>
   (m = b \<and> (\<forall>y \<in> set ys. f y \<le> f b)) \<or>
   (\<exists>pre post. ys = pre @ m # post \<and> f b < f m \<and>
      (\<forall>y \<in> set pre. f y < f m) \<and> (\<forall>y \<in> set post. f y \<le> f m))"
  for f :: "'a \<Rightarrow> real"
proof (induction ys arbitrary: b)
  case Nil
  then show ?case by simp
next
  case (Cons y ys)
  show ?case
  proof (cases "f b < f y")
    case True
    with Cons.prems have "fold (\<lambda>y best. if f best < f y then y else best) ys y = m" by simp
    from Cons.IH[OF this] show ?thesis
    proof
      assume "m = y \<and> (\<forall>z \<in> set ys. f z \<le> f y)"
      then have "y # ys = [] @ m # ys \<and> f b < f m \<and> (\<forall>z \<in> set []. f z < f m)
                 \<and> (\<forall>z \<in> set ys. f z \<le> f m)"
        using True by simp
      then show ?thesis by blast
    next
      assume "\<exists>pre post. ys = pre @ m # post \<and> f y < f m \<and>
                (\<forall>z \<in> set pre. f z < f m) \<and> (\<forall>z \<in> set post. f z \<le> f m)"
      then obtain pre post where "ys = pre @ m # post" "f y < f m"
        "\<forall>z \<in> set pre. f z < f m" "\<forall>z \<in> set post. f z \<le> f m" by blast
      then have "y # ys = (y # pre) @ m # post \<and> f b < f m \<and> (\<forall>z \<in> set (y # pre). f z < f m)
                 \<and> (\<forall>z \<in> set post. f z \<le> f m)"
        using True by auto
      then show ?thesis by blast
    qed
  next
    case False
    with Cons.prems have "fold (\<lambda>y best. if f best < f y then y else best) ys b = m" by simp
    from Cons.IH[OF this] show ?thesis
    proof
      assume "m = b \<and> (\<forall>z \<in> set ys. f z \<le> f b)"
      then show ?thesis using False by auto
    next
      assume "\<exists>pre post. ys = pre @ m # post \<and> f b < f m \<and>
                (\<forall>z \<in> set pre. f z < f m) \<and> (\<forall>z \<in> set post. f z \<le> f m)"
      then obtain pre post where "ys = pre @ m # post" "f b < f m"
        "\<forall>z \<in> set pre. f z < f m" "\<forall>z \<in> set post. f z \<le> f m" by blast
      then have "y # ys = (y # pre) @ m # post \<and> f b < f m \<and> (\<forall>z \<in> set (y # pre). f z < f m)
                 \<and> (\<forall>z \<in> set post. f z \<le> f m)"
        using False by auto
      then show ?thesis by blast
    qed
  qed
qed

lemma py_max_first:
  assumes "py_max f xs = Inr m"
  shows "\<exists>pre post. xs = pre @ m # post \<and>
           (\<forall>y \<in> set pre. f y < f m) \<and> (\<forall>y \<in> set post. f y \<le> f m)"
proof (cases xs)
  case Nil
  with assms show ?thesis by simp
next
  case (Cons x ys)
  with assms have "fold (\<lambda>y best. if f best < f y then y else best) ys x = m" by simp
  from fold_max_cases[OF this] show ?thesis
  proof
    assume "m = x \<and> (\<forall>y \<in> set ys. f y \<le> f x)"
    then have "xs = [] @ m # ys \<and> (\<forall>y \<in> set []. f y < f m) \<and> (\<forall>y \<in> set ys. f y \<le> f m)"
      using Cons by simp
    then show ?thesis by blast
  next
    assume "\<exists>pre post. ys = pre @ m # post \<and> f x < f m \<and>
              (\<forall>y \<in> set pre. f y < f m) \<and> (\<forall>y \<in> set post. f y \<le> f m)"
    then obtain pre post where "ys = pre @ m # post" "f x < f m"
      "\<forall>y \<in> set pre. f y < f m" "\<forall>y \<in> set post. f y \<le> f m" by blast
    then have "xs = (x # pre) @ m # post \<and> (\<forall>y \<in> set (x # pre). f y < f m)
               \<and> (\<forall>y \<in> set post. f y \<le> f m)"
      using Cons by auto
    then show ?thesis by blast
  qed
qed

lemma py_max_nonempty: "xs \<noteq> [] \<Longrightarrow> \<exists>m. py_max f xs = Inr m"
  by (cases xs) auto

lemma py_max_error: "py_max f xs = Inl e \<Longrightarrow> xs = []"
  by (cases xs) auto

subsection \<open>Successful results\<close>

lemma success_fields:
  assumes "squad_from_rows fadd df sel = Inr (Success sq)"
  shows "goalkeepers sq = listed df sel ''GK''"
    and "defenders sq = sort_desc (listed df sel ''DEF'')"
    and "midfielders sq = sort_desc (listed df sel ''MID'')"
    and "forwards sq = sort_desc (listed df sel ''FWD'')"
    and "total_cost sq = py_sum fadd (map price sel)"
    and "total_predicted sq = py_sum fadd (map predicted_points sel)"
    and "total_with_captain sq = fadd (total_predicted sq) (captain_points sq)"
    and "selected_ids sq = map pid sel"
  using assms by (auto simp: squad_from_rows_def Let_def split: sum.splits)

lemma success_captain:
  assumes "squad_from_rows fadd df sel = Inr (Success sq)"
  shows "\<exists>cap. py_max info_points (all_players sq) = Inr cap
               \<and> captain sq = info_name cap \<and> captain_points sq = info_points cap"
  using assms by (auto simp: squad_from_rows_def all_players_def Let_def split: sum.splits)

lemma rows_success:
  assumes "listed df sel ''GK'' \<noteq> []"
  shows "\<exists>sq. squad_from_rows fadd df sel = Inr (Success sq)"
proof -
  have "listed df sel ''GK'' @ sort_desc (listed df sel ''DEF'') @
        sort_desc (listed df sel ''MID'') @ sort_desc (listed df sel ''FWD'') \<noteq> []"
    using assms by simp
  from py_max_nonempty[OF this, of info_points] show ?thesis
    by (auto simp: squad_from_rows_def Let_def)
qed

lemma length_listed: "length (listed df sel pos) = count_pos pos sel"
  by (simp add: listed_def count_pos_def)

lemma length_sort_desc: "length (sort_desc xs) = length xs"
  by (simp add: sort_desc_def)

lemma mset_sort_desc: "mset (sort_desc xs) = mset xs"
  by (simp add: sort_desc_def)

lemma set_sort_desc: "set (sort_desc xs) = set xs"
  by (simp add: sort_desc_def)

lemma squad_ok_success:
  assumes "squad_ok df budget sel"
  shows "\<exists>sq. squad_from_rows fadd df sel = Inr (Success sq)"
proof -
  have "count_pos ''GK'' sel = 2" using assms by (simp add: squad_ok_def)
  then have "listed df sel ''GK'' \<noteq> []" using length_listed[of df sel "''GK''"] by auto
  then show ?thesis by (rule rows_success)
qed

text \<open>Positions outside the four lists.\<close>

lemma count_positions:
  "length sel = count_pos ''GK'' sel + count_pos ''DEF'' sel + count_pos ''MID'' sel
                + count_pos ''FWD'' sel + length (filter (\<lambda>r. \<not> known_position r) sel)"
  by (induction sel) (auto simp: count_pos_def known_position_def)

lemma squad_ok_known:
  assumes "squad_ok df budget sel" and "r \<in> set sel"
  shows "known_position r"
proof -
  from assms(1) have "length sel = 15" "count_pos ''GK'' sel = 2" "count_pos ''DEF'' sel = 5"
    "count_pos ''MID'' sel = 5" "count_pos ''FWD'' sel = 3"
    by (simp_all add: squad_ok_def)
  with count_positions[of sel] have "length (filter (\<lambda>r. \<not> known_position r) sel) = 0"
    by linarith
  then show ?thesis using assms(2) by (auto simp: filter_empty_conv)
qed

lemma mset_listed_all:
  assumes "\<forall>r \<in> set sel. known_position r"
  shows "mset (listed df sel ''GK'') + mset (listed df sel ''DEF'')
         + mset (listed df sel ''MID'') + mset (listed df sel ''FWD'')
         = mset (map (info_row df) sel)"
  using assms by (induction sel) (auto simp: listed_def known_position_def)

lemma all_players_mset:
  assumes s: "squad_from_rows fadd df sel = Inr (Success sq)" and k: "\<forall>r \<in> set sel. known_position r"
  shows "mset (all_players sq) = mset (map (info_row df) sel)"
  using mset_listed_all[OF k, of df]
  by (simp add: all_players_def success_fields[OF s] mset_sort_desc ac_simps)

text \<open>The sort of the three lists: greatest first, and equal points keep their order.\<close>

lemma sort_desc_sorted: "sorted_wrt (\<lambda>a b. info_points b \<le> info_points a) (sort_desc xs)"
proof -
  have "sorted (map (\<lambda>p. - info_points p) (sort_desc xs))"
    by (simp add: sort_desc_def)
  then show ?thesis by (simp add: sorted_map)
qed

lemma sort_desc_stable:
  "filter (\<lambda>p. info_points p = k) (sort_desc xs) = filter (\<lambda>p. info_points p = k) xs"
  using sort_key_stable[of "\<lambda>p. - info_points p" "- k" xs] by (simp add: sort_desc_def)

subsection \<open>The solver \<open>pick_all\<close> on pools of at most fifteen\<close>

lemma subseqs_length_le: "sel \<in> set (subseqs xs) \<Longrightarrow> length sel \<le> length xs"
  by (induction xs arbitrary: sel) (fastforce simp: Let_def)+

lemma subseqs_full: "sel \<in> set (subseqs xs) \<Longrightarrow> length xs \<le> length sel \<Longrightarrow> sel = xs"
proof (induction xs arbitrary: sel)
  case Nil
  then show ?case by simp
next
  case (Cons x xs)
  from Cons.prems(1) consider
    (take) t where "sel = x # t" "t \<in> set (subseqs xs)" | (skip) "sel \<in> set (subseqs xs)"
    by (auto simp: Let_def)
  then show ?case
  proof cases
    case take
    then show ?thesis using Cons.IH[of t] Cons.prems(2) by simp
  next
    case skip
    then show ?thesis using subseqs_length_le[OF skip] Cons.prems(2) by simp
  qed
qed

lemma feasible_small_pool:
  assumes "length (rows df) \<le> 15" and "feasible_squad df budget sel"
  shows "sel = rows df"
  using assms by (auto simp: feasible_squad_def squad_ok_def intro: subseqs_full)

lemma feasible_whole_pool: "feasible_squad df budget (rows df) \<longleftrightarrow> squad_ok df budget (rows df)"
  by (simp add: feasible_squad_def subseqs_refl)

lemma cbc_tol_range: "0 \<le> cbc_tol" "cbc_tol < 1"
  by (simp_all add: cbc_tol_def)

lemma pick_all_eval:
  assumes d: "distinct (index_tolist df)"
  shows "pick_all (build_problem df budget) =
           (if squad_ok df (budget + cbc_tol) (rows df) then (1, indicator_of (index_tolist df))
            else (- 1, \<lambda>i. 0))"
  using lp_feasible_indicator[OF d subseqs_refl, of "budget + cbc_tol"]
  by (simp add: pick_all_def lp_feasible_within_iff[OF cbc_tol_range] build_problem_simps
      index_tolist_def feasible_whole_pool)

lemma pick_all_contract:
  assumes d: "distinct (index_tolist df)" and n: "length (rows df) \<le> 15"
  shows "cbc_contract cbc_tol 0 pick_all (build_problem df budget)"
proof (cases "squad_ok df (budget + cbc_tol) (rows df)")
  case True
  show ?thesis
  proof (rule contract_by_optimum[OF d cbc_tol_range, where best = "rows df"])
    show "pick_all (build_problem df budget) = (1, indicator_of (map pid (rows df)))"
      using True by (simp add: pick_all_eval[OF d] index_tolist_def)
    show "feasible_squad df (budget + cbc_tol) (rows df)"
      using True by (simp add: feasible_whole_pool)
    show "score sel \<le> score (rows df) + 0" if "feasible_squad df budget sel" for sel
      using feasible_small_pool[OF n that] by simp
  qed
next
  case False
  show ?thesis
  proof (rule contract_by_infeasible[OF d])
    show "fst (pick_all (build_problem df budget)) \<noteq> 1"
      using False by (simp add: pick_all_eval[OF d])
    show "\<not> feasible_squad df budget sel" for sel
    proof
      assume f: "feasible_squad df budget sel"
      have "feasible_squad df (budget + cbc_tol) sel"
        by (rule feasible_squad_mono[OF _ f]) (simp add: cbc_tol_range)
      with feasible_small_pool[OF n f] False show False by (simp add: feasible_whole_pool)
    qed
  qed
qed

lemma chosen_all: "distinct (index_tolist df) \<Longrightarrow> chosen df (indicator_of (index_tolist df)) = rows df"
  using chosen_indicator[OF _ subseqs_refl, of df] by (simp add: index_tolist_def)

lemma pick_all_squad:
  assumes d: "distinct (index_tolist df)"
  shows "optimize_squad fadd pick_all df budget =
           (if squad_ok df (budget + cbc_tol) (rows df) then squad_from_rows fadd df (rows df)
            else Inr (Failed ''No optimal solution found''))"
  by (simp add: optimize_squad_def pick_all_eval[OF d] build_squad_rows[OF d] chosen_all[OF d])

subsection \<open>The pool of fifteen\<close>

lemma pool15_distinct: "distinct (index_tolist pool15)"
  by (simp add: pool15_def index_tolist_def)

lemma pool15_length: "length (rows pool15) \<le> 15"
  by (simp add: pool15_def)

lemma pool15_ok: "squad_ok pool15 100 (rows pool15)"
  by (simp add: squad_ok_def pool15_def count_pos_def count_team_def)

lemma pool15_ok_tol: "squad_ok pool15 (100 + cbc_tol) (rows pool15)"
  by (rule squad_ok_mono[OF _ pool15_ok]) (simp add: cbc_tol_range)

lemma pool15_rows_squad: "squad_from_rows (+) pool15 (rows pool15) = Inr (Success squad15)"
  by (simp add: squad_from_rows_def pool15_def listed_def info_row_def sort_desc_def
      py_sum_exact squad15_def)

lemma pool15_squad: "optimize_squad (+) pick_all pool15 100 = Inr (Success squad15)"
  by (simp add: pick_all_squad[OF pool15_distinct] pool15_ok_tol pool15_rows_squad)

lemma pool15_contract: "cbc_contract cbc_tol 0 pick_all (build_problem pool15 100)"
  by (rule pick_all_contract[OF pool15_distinct pool15_length])

subsection \<open>The solver \<open>pick_first\<close>\<close>

lemma take_in_subseqs: "take n xs \<in> set (subseqs xs)"
proof (induction xs arbitrary: n)
  case Nil
  then show ?case by simp
next
  case (Cons x xs)
  show ?case
  proof (cases n)
    case 0
    then show ?thesis using Cons.IH[of 0] by (simp add: Let_def)
  next
    case (Suc k)
    then show ?thesis using Cons.IH[of k] by (simp add: Let_def)
  qed
qed

lemma feasible_take: "feasible_squad df budget (take n (rows df)) \<longleftrightarrow> squad_ok df budget (take n (rows df))"
  by (simp add: feasible_squad_def take_in_subseqs)

lemma pick_first_eval:
  assumes d: "distinct (index_tolist df)"
  shows "pick_first (build_problem df budget) =
           (if squad_ok df (budget + cbc_tol) (take 15 (rows df))
            then (1, indicator_of (map pid (take 15 (rows df))))
            else (- 1, \<lambda>i. 0))"
  using lp_feasible_indicator[OF d take_in_subseqs[of 15 "rows df"], of "budget + cbc_tol"]
  by (simp add: pick_first_def lp_feasible_within_iff[OF cbc_tol_range] build_problem_simps
      index_tolist_def take_map feasible_take)

lemma pick_first_squad:
  assumes d: "distinct (index_tolist df)"
  shows "optimize_squad fadd pick_first df budget =
           (if squad_ok df (budget + cbc_tol) (take 15 (rows df))
            then squad_from_rows fadd df (take 15 (rows df))
            else Inr (Failed ''No optimal solution found''))"
  by (simp add: optimize_squad_def pick_first_eval[OF d] build_squad_rows[OF d]
      chosen_indicator[OF d take_in_subseqs])

lemma pick_first_small: "length (variables p) \<le> 15 \<Longrightarrow> pick_first p = pick_all p"
  by (simp add: pick_first_def pick_all_def)

lemma pick_first_contract_small:
  assumes d: "distinct (index_tolist df)" and n: "length (rows df) \<le> 15"
  shows "cbc_contract cbc_tol 0 pick_first (build_problem df budget)"
proof -
  have "pick_first (build_problem df budget) = pick_all (build_problem df budget)"
    using n by (intro pick_first_small) (simp add: build_problem_simps index_tolist_def)
  then show ?thesis using pick_all_contract[OF d n, of budget] by (simp add: cbc_contract_def)
qed

lemma pick_first_contract_best:
  assumes d: "distinct (index_tolist df)"
    and ok: "squad_ok df (budget + cbc_tol) (take 15 (rows df))"
    and opt: "\<And>sel. feasible_squad df budget sel \<Longrightarrow> score sel \<le> score (take 15 (rows df))"
  shows "cbc_contract cbc_tol 0 pick_first (build_problem df budget)"
proof (rule contract_by_optimum[OF d cbc_tol_range, where best = "take 15 (rows df)"])
  show "pick_first (build_problem df budget) = (1, indicator_of (map pid (take 15 (rows df))))"
    using ok by (simp add: pick_first_eval[OF d])
  show "feasible_squad df (budget + cbc_tol) (take 15 (rows df))"
    using ok by (simp add: feasible_take)
  show "score sel \<le> score (take 15 (rows df)) + 0" if "feasible_squad df budget sel" for sel
    using opt[OF that] by simp
qed

lemma sum_list_le_const:
  "\<forall>r \<in> set xs. f r \<le> c \<Longrightarrow> sum_list (map f xs) \<le> real (length xs) * c"
  for f :: "'a \<Rightarrow> real"
  by (induction xs) (auto simp: algebra_simps)

lemma sum_list_eq_const:
  "\<forall>r \<in> set xs. f r = c \<Longrightarrow> sum_list (map f xs) = real (length xs) * c"
  for f :: "'a \<Rightarrow> real"
  by (induction xs) (auto simp: algebra_simps)

lemma pick_first_contract_top:
  assumes d: "distinct (index_tolist df)"
    and ok: "squad_ok df (budget + cbc_tol) (take 15 (rows df))"
    and top: "\<forall>r \<in> set (rows df). predicted_points r \<le> c"
    and first: "\<forall>r \<in> set (take 15 (rows df)). predicted_points r = c"
  shows "cbc_contract cbc_tol 0 pick_first (build_problem df budget)"
proof (rule pick_first_contract_best[OF d ok])
  show "score sel \<le> score (take 15 (rows df))" if f: "feasible_squad df budget sel" for sel
  proof -
    have len: "length sel = 15" "length (take 15 (rows df)) = 15"
      using f ok by (simp_all add: feasible_squad_def squad_ok_def)
    have "set sel \<subseteq> set (rows df)"
      using f by (auto simp: feasible_squad_def dest: subseqs_subset)
    then have "\<forall>r \<in> set sel. predicted_points r \<le> c" using top by blast
    then have "score sel \<le> real (length sel) * c"
      unfolding score_def by (rule sum_list_le_const)
    also have "\<dots> = real (length (take 15 (rows df))) * c" by (simp only: len)
    also have "\<dots> = score (take 15 (rows df))"
      unfolding score_def by (rule sum_list_eq_const[OF first, symmetric])
    finally show ?thesis .
  qed
qed

subsection \<open>Sublists of a pool with one more row\<close>

lemma subseqs_snoc:
  "sel \<in> set (subseqs (xs @ [y]))
   \<longleftrightarrow> sel \<in> set (subseqs xs) \<or> (\<exists>t \<in> set (subseqs xs). sel = t @ [y])"
proof (induction xs arbitrary: sel)
  case Nil
  then show ?case by auto
next
  case (Cons x xs)
  show ?case
  proof
    assume "sel \<in> set (subseqs ((x # xs) @ [y]))"
    then consider (take) t where "sel = x # t" "t \<in> set (subseqs (xs @ [y]))"
      | (skip) "sel \<in> set (subseqs (xs @ [y]))"
      by (auto simp: Let_def)
    then show "sel \<in> set (subseqs (x # xs)) \<or> (\<exists>t \<in> set (subseqs (x # xs)). sel = t @ [y])"
    proof cases
      case take
      from take(2) Cons.IH[of t] consider "t \<in> set (subseqs xs)"
        | u where "u \<in> set (subseqs xs)" "t = u @ [y]" by blast
      then show ?thesis
      proof cases
        case 1
        then show ?thesis using take(1) by (simp add: Let_def)
      next
        case 2
        then have "x # u \<in> set (subseqs (x # xs))" "sel = (x # u) @ [y]"
          using take(1) by (simp_all add: Let_def)
        then show ?thesis by blast
      qed
    next
      case skip
      from skip Cons.IH[of sel] consider "sel \<in> set (subseqs xs)"
        | u where "u \<in> set (subseqs xs)" "sel = u @ [y]" by blast
      then show ?thesis
      proof cases
        case 1
        then show ?thesis by (simp add: Let_def)
      next
        case 2
        then have "u \<in> set (subseqs (x # xs))" by (simp add: Let_def)
        then show ?thesis using 2(2) by blast
      qed
    qed
  next
    assume "sel \<in> set (subseqs (x # xs)) \<or> (\<exists>t \<in> set (subseqs (x # xs)). sel = t @ [y])"
    then consider (a) "sel \<in> set (subseqs (x # xs))"
      | (b) t where "t \<in> set (subseqs (x # xs))" "sel = t @ [y]" by blast
    then show "sel \<in> set (subseqs ((x # xs) @ [y]))"
    proof cases
      case a
      then consider u where "sel = x # u" "u \<in> set (subseqs xs)" | "sel \<in> set (subseqs xs)"
        by (auto simp: Let_def)
      then show ?thesis
      proof cases
        case 1
        then have "u \<in> set (subseqs (xs @ [y]))" using Cons.IH[of u] by blast
        then show ?thesis using 1(1) by (simp add: Let_def)
      next
        case 2
        then have "sel \<in> set (subseqs (xs @ [y]))" using Cons.IH[of sel] by blast
        then show ?thesis by (simp add: Let_def)
      qed
    next
      case b
      from b(1) consider u where "t = x # u" "u \<in> set (subseqs xs)" | "t \<in> set (subseqs xs)"
        by (auto simp: Let_def)
      then show ?thesis
      proof cases
        case 1
        then have "u @ [y] \<in> set (subseqs (xs @ [y]))" using Cons.IH[of "u @ [y]"] by blast
        then show ?thesis using 1(1) b(2) by (simp add: Let_def)
      next
        case 2
        then have "t @ [y] \<in> set (subseqs (xs @ [y]))" using Cons.IH[of "t @ [y]"] by blast
        then show ?thesis using b(2) by (simp add: Let_def)
      qed
    qed
  qed
qed


subsection \<open>Pools that differ from the pool of fifteen by one row or by the budget\<close>

lemma squad_ok_team_col:
  "team_col df = team_col df' \<Longrightarrow> squad_ok df budget sel = squad_ok df' budget sel"
  by (simp add: squad_ok_def)

lemma squad_from_rows_team_col:
  assumes "team_col df = team_col df'"
  shows "squad_from_rows fadd df sel = squad_from_rows fadd df' sel"
proof -
  have "info_row df = info_row df'" using assms by (intro ext) (simp add: info_row_def)
  then show ?thesis by (simp add: squad_from_rows_def listed_def)
qed

lemma pool15_len: "length (rows pool15) = 15"
  by (simp add: pool15_def)



lemma set_feasible_squads: "set (feasible_squads df budget) = {sel. feasible_squad df budget sel}"
  by (auto simp: feasible_squads_def feasible_squad_def)

text \<open>The budget one millionth short.\<close>

lemma pool15_tight_ok: "squad_ok pool15 (tight_budget + cbc_tol) (rows pool15)"
  by (simp add: squad_ok_def pool15_def count_pos_def count_team_def tight_budget_def cbc_tol_def)

lemma pool15_tight_not_ok: "\<not> squad_ok pool15 tight_budget (rows pool15)"
  by (simp add: squad_ok_def pool15_def tight_budget_def)

lemma pool15_tight_infeasible: "\<not> feasible_squad pool15 tight_budget sel"
  using feasible_small_pool[OF pool15_length, of tight_budget sel] pool15_tight_not_ok
  by (auto simp: feasible_whole_pool)

lemma pool15_tight_none: "feasible_squads pool15 tight_budget = []"
proof -
  have "set (feasible_squads pool15 tight_budget) = {}"
    using pool15_tight_infeasible by (simp add: set_feasible_squads)
  then show ?thesis by (simp only: set_empty)
qed

lemma pool15_tight_squad:
  "optimize_squad (+) pick_all pool15 tight_budget = Inr (Success squad15)"
  by (simp add: pick_all_squad[OF pool15_distinct] pool15_tight_ok pool15_rows_squad)

lemma pool15_tight_contract: "cbc_contract cbc_tol 0 pick_all (build_problem pool15 tight_budget)"
  by (rule pick_all_contract[OF pool15_distinct pool15_length])


text \<open>The sixteenth row with a position outside the four.\<close>

lemma manager_rows: "rows pool16_manager = rows pool15 @ [manager15]"
  by (simp add: pool16_manager_def)

lemma manager_team_col: "team_col pool16_manager = team_col pool15"
  by (simp add: pool16_manager_def)

lemma manager_distinct: "distinct (index_tolist pool16_manager)"
  by (simp add: index_tolist_def manager_rows) (simp add: pool15_def manager15_def)

lemma manager_first: "take 15 (rows pool16_manager) = rows pool15"
  by (simp add: manager_rows pool15_len)

lemma manager_unknown: "\<not> known_position manager15"
  by (simp add: known_position_def manager15_def)

lemma manager_ok: "squad_ok pool16_manager (100 + cbc_tol) (take 15 (rows pool16_manager))"
  unfolding manager_first squad_ok_team_col[OF manager_team_col] by (rule pool15_ok_tol)

lemma manager_best:
  assumes f: "feasible_squad pool16_manager 100 sel"
  shows "sel = rows pool15"
proof -
  from f have m: "sel \<in> set (subseqs (rows pool15 @ [manager15]))"
    and ok: "squad_ok pool16_manager 100 sel"
    by (simp_all add: feasible_squad_def manager_rows)
  from m consider "sel \<in> set (subseqs (rows pool15))"
    | t where "sel = t @ [manager15]" unfolding subseqs_snoc by blast
  then show ?thesis
  proof cases
    case 1
    have "length sel = 15" using ok by (simp add: squad_ok_def)
    then show ?thesis using subseqs_full[OF 1] by (simp add: pool15_len)
  next
    case 2
    then have "manager15 \<in> set sel" by simp
    from squad_ok_known[OF ok this] manager_unknown show ?thesis by simp
  qed
qed

lemma manager_contract: "cbc_contract cbc_tol 0 pick_first (build_problem pool16_manager 100)"
proof (rule pick_first_contract_best[OF manager_distinct manager_ok])
  show "score sel \<le> score (take 15 (rows pool16_manager))"
    if "feasible_squad pool16_manager 100 sel" for sel
    using manager_best[OF that] by (simp add: manager_first)
qed

lemma manager_squad: "optimize_squad (+) pick_first pool16_manager 100 = Inr (Success squad15)"
  using manager_ok
  by (simp add: pick_first_squad[OF manager_distinct] manager_first
      squad_from_rows_team_col[OF manager_team_col] pool15_rows_squad)














section \<open>Single squads\<close>

lemma success_status:
  assumes "optimize_squad fadd solver df budget = Inr (Success sq)"
  shows "fst (solver (build_problem df budget)) = 1"
    and "build_squad fadd df (snd (solver (build_problem df budget))) = Inr (Success sq)"
  using assms by (auto simp: optimize_squad_def split: prod.splits if_splits)

lemma rows_of_selected:
  assumes d: "distinct (index_tolist df)"
  shows "filter (\<lambda>r. pid r \<in> set (map pid (chosen df x))) (rows df) = chosen df x"
  using filter_subseq_id[OF _ chosen_in_subseqs, of df x] d by (simp add: index_tolist_def)

lemma selected_rows_chosen:
  assumes d: "distinct (index_tolist df)"
    and r: "squad_from_rows fadd df (chosen df x) = Inr (Success sq)"
  shows "selected_rows df sq = chosen df x"
  unfolding selected_rows_def by (simp only: success_fields(8)[OF r] rows_of_selected[OF d])

lemma success_rows:
  assumes d: "distinct (index_tolist df)"
    and s: "optimize_squad fadd solver df budget = Inr (Success sq)"
  shows "squad_from_rows fadd df (selected_rows df sq) = Inr (Success sq)"
    and "selected_rows df sq = chosen df (snd (solver (build_problem df budget)))"
    and "selected_rows df sq \<in> set (subseqs (rows df))"
    and "selected_ids sq = map pid (selected_rows df sq)"
proof -
  let ?x = "snd (solver (build_problem df budget))"
  have r: "squad_from_rows fadd df (chosen df ?x) = Inr (Success sq)"
    using success_status(2)[OF s] by (simp add: build_squad_rows[OF d])
  show e: "selected_rows df sq = chosen df ?x" by (rule selected_rows_chosen[OF d r])
  show r': "squad_from_rows fadd df (selected_rows df sq) = Inr (Success sq)"
    using r by (simp only: e)
  show "selected_rows df sq \<in> set (subseqs (rows df))"
    unfolding e by (rule chosen_in_subseqs)
  show "selected_ids sq = map pid (selected_rows df sq)" by (rule success_fields(8)[OF r'])
qed

lemma success_ok:
  assumes d: "distinct (index_tolist df)"
    and t0: "0 \<le> tol" and t1: "tol < 1"
    and c: "cbc_contract tol gap solver (build_problem df budget)"
    and s: "optimize_squad fadd solver df budget = Inr (Success sq)"
  shows "squad_ok df (budget + tol) (selected_rows df sq)"
    and "feasible_squad df budget sel \<Longrightarrow> score sel \<le> score (selected_rows df sq) + gap"
proof -
  define x where "x = snd (solver (build_problem df budget))"
  have sx: "solver (build_problem df budget) = (1, x)"
    using success_status(1)[OF s] by (simp add: x_def prod_eq_iff)
  have e: "selected_rows df sq = chosen df x"
    using success_rows(2)[OF d s] by (simp add: x_def)
  show "squad_ok df (budget + tol) (selected_rows df sq)"
    unfolding e by (rule contract_optimal(2)[OF d t0 t1 c sx])
  show "score sel \<le> score (selected_rows df sq) + gap" if "feasible_squad df budget sel"
    unfolding e using that by (rule contract_optimal(3)[OF d t0 t1 c sx])
qed

lemma success_members:
  assumes d: "distinct (index_tolist df)"
    and t0: "0 \<le> tol" and t1: "tol < 1"
    and c: "cbc_contract tol gap solver (build_problem df budget)"
    and s: "optimize_squad fadd solver df budget = Inr (Success sq)"
  shows "\<forall>r \<in> set (selected_rows df sq). known_position r"
    and "mset (all_players sq) = mset (map (info_row df) (selected_rows df sq))"
proof -
  show k: "\<forall>r \<in> set (selected_rows df sq). known_position r"
    using squad_ok_known[OF success_ok(1)[OF d t0 t1 c s]] by blast
  show "mset (all_players sq) = mset (map (info_row df) (selected_rows df sq))"
    by (rule all_players_mset[OF success_rows(1)[OF d s] k])
qed

text \<open>
  Claim C10. A player whose position is none of GK, DEF, MID, FWD is never selected: the
  size constraint and the four quotas leave no room for one. So the four position lists
  of a successful result hold every selected player exactly once (as multisets they add
  up to the selected rows), and their lengths sum to 15. The solver is assumed to keep
  its contract, to a feasibility tolerance below 1; the index labels are distinct.
\<close>

theorem selected_positions_partition:
  assumes "distinct (index_tolist df)"
    and "0 \<le> tol" and "tol < 1"
    and "cbc_contract tol gap solver (build_problem df budget)"
    and "optimize_squad fadd solver df budget = Inr (Success sq)"
  shows "(\<forall>r \<in> set (rows df). pid r \<in> set (selected_ids sq) \<longrightarrow> known_position r) \<and>
         mset (goalkeepers sq) + mset (defenders sq) + mset (midfielders sq) + mset (forwards sq)
           = mset (map (info_row df) (selected_rows df sq)) \<and>
         length (goalkeepers sq) + length (defenders sq) + length (midfielders sq)
           + length (forwards sq) = 15"
proof -
  note r = success_rows(1)[OF assms(1,5)]
  note ok = success_ok(1)[OF assms]
  note k = success_members(1)[OF assms]
  have "\<forall>r \<in> set (rows df). pid r \<in> set (selected_ids sq) \<longrightarrow> known_position r"
    using k by (simp add: selected_rows_def)
  moreover have "mset (goalkeepers sq) + mset (defenders sq) + mset (midfielders sq)
        + mset (forwards sq) = mset (map (info_row df) (selected_rows df sq))"
    using success_members(2)[OF assms] by (simp add: all_players_def ac_simps)
  moreover have "length (goalkeepers sq) + length (defenders sq) + length (midfielders sq)
        + length (forwards sq) = 15"
    using ok by (simp add: success_fields[OF r] length_sort_desc length_listed squad_ok_def)
  ultimately show ?thesis by blast
qed

theorem selected_positions_partition_witness:
  "distinct (index_tolist pool16_manager) \<and>
   cbc_contract cbc_tol 0 pick_first (build_problem pool16_manager 100) \<and>
   optimize_squad (+) pick_first pool16_manager 100 = Inr (Success squad15) \<and>
   manager15 \<in> set (rows pool16_manager) \<and>
   \<not> known_position manager15 \<and>
   pid manager15 \<notin> set (selected_ids squad15) \<and>
   length (goalkeepers squad15) + length (defenders squad15) + length (midfielders squad15)
     + length (forwards squad15) = 15"
proof -
  have m: "manager15 \<in> set (rows pool16_manager)" by (simp add: manager_rows)
  note t = selected_positions_partition[OF manager_distinct cbc_tol_range manager_contract
      manager_squad]
  from t m have "pid manager15 \<in> set (selected_ids squad15) \<longrightarrow> known_position manager15"
    by blast
  then have "pid manager15 \<notin> set (selected_ids squad15)" using manager_unknown by blast
  with t m manager_unknown manager_distinct manager_contract manager_squad
  show ?thesis by blast
qed

lemma sum_list_mset_cong: "mset xs = mset ys \<Longrightarrow> sum_list (map f xs) = sum_list (map f ys)"
  for f :: "'a \<Rightarrow> real"
proof -
  assume "mset xs = mset ys"
  then have "sum_mset (image_mset f (mset xs)) = sum_mset (image_mset f (mset ys))" by simp
  then show ?thesis by (simp only: mset_map[symmetric] sum_mset_sum_list)
qed


lemma build_squad_captain:
  assumes "build_squad fadd df x = Inr (Success sq)"
  shows "\<exists>cap. py_max info_points (all_players sq) = Inr cap
               \<and> captain sq = info_name cap \<and> captain_points sq = info_points cap"
  using assms by (auto simp: build_squad_def all_players_def Let_def split: sum.splits)



text \<open>
  Claim C6, as the code has it. The result lists the selected goalkeepers in pool order,
  then the selected defenders, midfielders and forwards, each group sorted by falling
  predicted points with equal points left in pool order. The captain is the first member
  of that list whose predicted points no member exceeds: every member listed before the
  captain has strictly fewer points, every member listed after has at most as many.
  Index labels play no part.
\<close>

theorem captain_first_greatest:
  assumes "distinct (index_tolist df)"
    and "optimize_squad fadd solver df budget = Inr (Success sq)"
  shows "goalkeepers sq = listed df (selected_rows df sq) ''GK'' \<and>
         sorted_by_points_from (defenders sq) (listed df (selected_rows df sq) ''DEF'') \<and>
         sorted_by_points_from (midfielders sq) (listed df (selected_rows df sq) ''MID'') \<and>
         sorted_by_points_from (forwards sq) (listed df (selected_rows df sq) ''FWD'') \<and>
         (\<exists>pre cap post.
            goalkeepers sq @ defenders sq @ midfielders sq @ forwards sq = pre @ cap # post \<and>
            captain sq = info_name cap \<and> captain_points sq = info_points cap \<and>
            (\<forall>p \<in> set pre. info_points p < info_points cap) \<and>
            (\<forall>p \<in> set post. info_points p \<le> info_points cap))"
proof -
  note r = success_rows(1)[OF assms]
  from success_captain[OF r] obtain cap where
    c: "py_max info_points (all_players sq) = Inr cap"
      "captain sq = info_name cap" "captain_points sq = info_points cap"
    by blast
  have s: "sorted_by_points_from (sort_desc xs) xs" for xs
    unfolding sorted_by_points_from_def using sort_desc_sorted sort_desc_stable by blast
  from py_max_first[OF c(1)] c(2,3)
  have "\<exists>pre cap post.
            goalkeepers sq @ defenders sq @ midfielders sq @ forwards sq = pre @ cap # post \<and>
            captain sq = info_name cap \<and> captain_points sq = info_points cap \<and>
            (\<forall>p \<in> set pre. info_points p < info_points cap) \<and>
            (\<forall>p \<in> set post. info_points p \<le> info_points cap)"
    unfolding all_players_def by blast
  then show ?thesis
    using s by (simp only: success_fields(1-4)[OF r] simp_thms)
qed

theorem captain_first_greatest_witness:
  "distinct (index_tolist pool15) \<and>
   optimize_squad (+) pick_all pool15 100 = Inr (Success squad15) \<and>
   map info_name (listed pool15 (selected_rows pool15 squad15) ''DEF'')
     = [''D0'', ''D1'', ''D2'', ''D3'', ''D4''] \<and>
   map info_name (defenders squad15) = [''D0'', ''D2'', ''D1'', ''D3'', ''D4''] \<and>
   sorted_by_points_from (defenders squad15)
     (listed pool15 (selected_rows pool15 squad15) ''DEF'') \<and>
   map info_name (goalkeepers squad15) = [''G13'', ''G14''] \<and>
   captain squad15 = ''G13'' \<and>
   (\<exists>pre cap post.
      goalkeepers squad15 @ defenders squad15 @ midfielders squad15 @ forwards squad15
        = pre @ cap # post \<and>
      captain squad15 = info_name cap \<and> captain_points squad15 = info_points cap \<and>
      (\<forall>p \<in> set pre. info_points p < info_points cap) \<and>
      (\<forall>p \<in> set post. info_points p \<le> info_points cap))"
proof -
  have "map info_name (listed pool15 (selected_rows pool15 squad15) ''DEF'')
     = [''D0'', ''D1'', ''D2'', ''D3'', ''D4'']"
    by (simp add: listed_def selected_rows_def squad15_def pool15_def info_row_def)
  moreover have "map info_name (defenders squad15) = [''D0'', ''D2'', ''D1'', ''D3'', ''D4'']"
    "map info_name (goalkeepers squad15) = [''G13'', ''G14'']" "captain squad15 = ''G13''"
    by (simp_all add: squad15_def)
  ultimately show ?thesis
    using captain_first_greatest[OF pool15_distinct pool15_squad] pool15_distinct pool15_squad
    by blast
qed

text \<open>
  The claim as the specification states it fails on \<open>pool15\<close>: defender 0 and goalkeeper
  13 tie for the greatest predicted points, the smallest index label among them is 0
  (\<open>D0\<close>), and the code names \<open>G13\<close>, which it lists first.
\<close>

theorem captain_smallest_id_counterexample:
  "cbc_contract cbc_tol 0 pick_all (build_problem pool15 100) \<and>
   optimize_squad (+) pick_all pool15 100 = Inr (Success squad15) \<and>
   map_option name (spec_captain (rows pool15)) = Some ''D0'' \<and>
   map_option pid (spec_captain (rows pool15)) = Some 0 \<and>
   selected_ids squad15 = map pid (rows pool15) \<and>
   captain squad15 = ''G13''"
  using pool15_contract pool15_squad
  by (simp add: pool15_def squad15_def)

subsection \<open>Pools without a team column\<close>

lemma no_team_constraints: "\<not> team_col df \<Longrightarrow> team_constraints (teams_of df) ids = []"
  by (simp add: teams_of_def team_constraints_def)

lemma no_team_info: "\<not> team_col df \<Longrightarrow>
  info_team (info_of names (teams_of df) prices points i) = ''Unknown''"
  by (simp add: info_of_def teams_of_def)

lemma build_squad_members:
  assumes "build_squad fadd df x = Inr (Success sq)"
  shows "set (all_players sq) \<subseteq>
           range (info_of (to_dict name df) (teams_of df) (to_dict price df)
                    (to_dict predicted_points df))"
  using assms
  by (auto simp: build_squad_def all_players_def Let_def set_sort_desc players_at_def
      split: sum.splits)

text \<open>
  Claim C9. When the frame has no \<open>team\<close> column the program handed to the solver has the
  budget, size and four quota constraints and no other, so nothing limits how many
  selected players share a team; and every player of a returned squad shows the team
  \<open>Unknown\<close>.
\<close>

theorem no_team_column_no_cap:
  assumes "\<not> team_col df"
  shows "constraints (build_problem df budget) =
           [\<lparr>lhs = lp_sum (dict_at (to_dict price df)) (index_tolist df),
              sense = LpLE, rhs = budget\<rparr>,
            \<lparr>lhs = lp_sum (\<lambda>i. 1) (index_tolist df), sense = LpEQ, rhs = 15\<rparr>,
            \<lparr>lhs = lp_sum (\<lambda>i. 1) (ids_at (to_dict position df) (index_tolist df) ''GK''),
              sense = LpEQ, rhs = 2\<rparr>,
            \<lparr>lhs = lp_sum (\<lambda>i. 1) (ids_at (to_dict position df) (index_tolist df) ''DEF''),
              sense = LpEQ, rhs = 5\<rparr>,
            \<lparr>lhs = lp_sum (\<lambda>i. 1) (ids_at (to_dict position df) (index_tolist df) ''MID''),
              sense = LpEQ, rhs = 5\<rparr>,
            \<lparr>lhs = lp_sum (\<lambda>i. 1) (ids_at (to_dict position df) (index_tolist df) ''FWD''),
              sense = LpEQ, rhs = 3\<rparr>] \<and>
         (optimize_squad fadd solver df budget = Inr (Success sq) \<longrightarrow>
            (\<forall>p \<in> set (all_players sq). info_team p = ''Unknown''))"
proof -
  have "info_team p = ''Unknown''"
    if s: "optimize_squad fadd solver df budget = Inr (Success sq)"
      and p: "p \<in> set (all_players sq)"
    for p
    using build_squad_members[OF success_status(2)[OF s]] p no_team_info[OF assms] by auto
  then show ?thesis
    by (simp add: build_problem_def Let_def no_team_constraints[OF assms])
qed

lemma pool15_noteam_distinct: "distinct (index_tolist pool15_noteam)"
  by (simp add: pool15_noteam_def pool15_def index_tolist_def)

lemma pool15_noteam_ok: "squad_ok pool15_noteam (100 + cbc_tol) (rows pool15_noteam)"
  by (simp add: squad_ok_def pool15_noteam_def pool15_def count_pos_def cbc_tol_def)

lemma pool15_noteam_rows_squad:
  "squad_from_rows (+) pool15_noteam (rows pool15_noteam) = Inr (Success squad15_noteam)"
  by (simp add: squad_from_rows_def pool15_noteam_def pool15_def listed_def info_row_def
      sort_desc_def score_def squad15_noteam_def py_sum_def)

lemma pool15_noteam_squad:
  "optimize_squad (+) pick_all pool15_noteam 100 = Inr (Success squad15_noteam)"
  by (simp add: pick_all_squad[OF pool15_noteam_distinct] pool15_noteam_ok
      pool15_noteam_rows_squad)

theorem no_team_column_no_cap_witness:
  "\<not> team_col pool15_noteam \<and>
   length (constraints (build_problem pool15_noteam 100)) = 6 \<and>
   optimize_squad (+) pick_all pool15_noteam 100 = Inr (Success squad15_noteam) \<and>
   list_all (\<lambda>p. info_team p = ''Unknown'') (all_players squad15_noteam) \<and>
   team_count ''Unknown'' squad15_noteam = 15"
proof -
  have nt: "\<not> team_col pool15_noteam" by (simp add: pool15_noteam_def)
  have "team_count ''Unknown'' squad15_noteam = 15"
    by (simp add: team_count_def squad15_noteam_def all_players_def)
  then show ?thesis
    using no_team_column_no_cap[OF nt, of 100 "(+)" pick_all squad15_noteam] nt
      pool15_noteam_squad
    by (simp add: list_all_iff)
qed

subsection \<open>Feasibility of the returned squad\<close>

lemma count_team_bound:
  assumes "\<forall>r \<in> set sel. count_team (team r) sel \<le> 3"
  shows "count_team t sel \<le> 3"
proof (cases "\<exists>r \<in> set sel. team r = t")
  case True
  then show ?thesis using assms by auto
next
  case False
  then have "filter (\<lambda>r. team r = t) sel = []" by (auto simp: filter_empty_conv)
  then show ?thesis by (simp add: count_team_def)
qed




subsection \<open>Optimality\<close>













subsection \<open>Failure\<close>

text \<open>
  Claim C8, as the code has it. When no selection satisfies the constraints, not even
  with the budget widened by the feasibility tolerance of the solver, \<^verbatim>\<open>optimize_squad\<close>
  raises nothing and returns the failure dict with status \<open>failed\<close> and the fixed message
  \<open>No optimal solution found\<close>.
\<close>

theorem infeasible_returns_failed:
  assumes "distinct (index_tolist df)"
    and "0 \<le> tol" and "tol < 1"
    and "cbc_contract tol gap solver (build_problem df budget)"
    and "\<And>sel. \<not> feasible_squad df (budget + tol) sel"
  shows "optimize_squad fadd solver df budget = Inr (Failed ''No optimal solution found'')"
proof -
  have "fst (solver (build_problem df budget)) \<noteq> 1"
    using assms by (rule contract_failed)
  then show ?thesis by (auto simp: optimize_squad_def split: prod.splits)
qed

lemma small_pool_infeasible:
  assumes "length (rows df) \<le> 15" and "\<not> squad_ok df budget (rows df)"
  shows "\<not> feasible_squad df budget sel"
  using feasible_small_pool[OF assms(1), of budget sel] assms(2)
  by (auto simp: feasible_whole_pool)

lemma pool15_low_budget: "\<not> squad_ok pool15 (low_budget + cbc_tol) (rows pool15)"
  by (simp add: squad_ok_def pool15_def low_budget_def cbc_tol_def)

lemma pool15_low_budget_infeasible: "\<not> feasible_squad pool15 (low_budget + cbc_tol) sel"
  by (rule small_pool_infeasible[OF pool15_length pool15_low_budget])

lemma pool14_distinct: "distinct (index_tolist pool14)"
  by (simp add: pool14_def pool15_def index_tolist_def)

lemma pool14_length: "length (rows pool14) \<le> 15"
  by (simp add: pool14_def pool15_def)

lemma pool14_not_ok: "\<not> squad_ok pool14 (100 + cbc_tol) (rows pool14)"
  by (simp add: squad_ok_def pool14_def pool15_def)

lemma pool15_oneclub_distinct: "distinct (index_tolist pool15_oneclub)"
  by (simp add: pool15_oneclub_def pool15_def index_tolist_def)

lemma pool15_oneclub_length: "length (rows pool15_oneclub) \<le> 15"
  by (simp add: pool15_oneclub_def pool15_def)

lemma pool15_oneclub_count: "count_team ''Arsenal'' (rows pool15_oneclub) = 15"
  by (simp add: pool15_oneclub_def pool15_def count_team_def)

lemma pool15_oneclub_not_ok: "\<not> squad_ok pool15_oneclub (100 + cbc_tol) (rows pool15_oneclub)"
proof
  assume "squad_ok pool15_oneclub (100 + cbc_tol) (rows pool15_oneclub)"
  then have "\<forall>r \<in> set (rows pool15_oneclub). count_team (team r) (rows pool15_oneclub) \<le> 3"
    by (simp add: squad_ok_def pool15_oneclub_def pool15_def)
  then have "count_team ''Arsenal'' (rows pool15_oneclub) \<le> 3"
    by (rule count_team_bound)
  then show False by (simp add: pool15_oneclub_count)
qed

theorem infeasible_returns_failed_witness:
  "distinct (index_tolist pool15) \<and>
   cbc_contract cbc_tol 0 pick_all (build_problem pool15 low_budget) \<and>
   feasible_squads pool15 (low_budget + cbc_tol) = [] \<and>
   optimize_squad (+) pick_all pool15 low_budget = Inr (Failed ''No optimal solution found'')"
proof -
  have c: "cbc_contract cbc_tol 0 pick_all (build_problem pool15 low_budget)"
    by (rule pick_all_contract[OF pool15_distinct pool15_length])
  have "set (feasible_squads pool15 (low_budget + cbc_tol)) = {}"
    using pool15_low_budget_infeasible by (simp add: set_feasible_squads)
  then have e: "feasible_squads pool15 (low_budget + cbc_tol) = []" by (simp only: set_empty)
  from infeasible_returns_failed[OF pool15_distinct cbc_tol_range c
      pool15_low_budget_infeasible, of "(+)"]
  show ?thesis using pool15_distinct c e by blast
qed

text \<open>
  The claim as stated fails twice. A pool one goalkeeper short, a budget far below the
  price of the only squad, and a pool whose players all share one team give the very same
  failure dict, so the failure tells the three causes apart by nothing. And a budget one
  millionth below the price of the only squad of \<open>pool15\<close>, for which brute-force
  enumeration finds no feasible squad, gives no failure: the solver that accepts a
  violation of one millionth keeps its contract and the whole pool is returned with
  status success.
\<close>

theorem failure_kind_counterexample:
  "cbc_contract cbc_tol 0 pick_all (build_problem pool14 100) \<and>
   cbc_contract cbc_tol 0 pick_all (build_problem pool15 low_budget) \<and>
   cbc_contract cbc_tol 0 pick_all (build_problem pool15_oneclub 100) \<and>
   count_pos ''GK'' (rows pool14) = 1 \<and>
   squad_ok pool15 100 (rows pool15) \<and> low_budget < sum_list (map price (rows pool15)) \<and>
   count_team ''Arsenal'' (rows pool15_oneclub) = 15 \<and>
   optimize_squad (+) pick_all pool14 100 = Inr (Failed ''No optimal solution found'') \<and>
   optimize_squad (+) pick_all pool15 low_budget = Inr (Failed ''No optimal solution found'') \<and>
   optimize_squad (+) pick_all pool15_oneclub 100
     = Inr (Failed ''No optimal solution found'') \<and>
   cbc_contract cbc_tol 0 pick_all (build_problem pool15 tight_budget) \<and>
   tight_budget < sum_list (map price (rows pool15)) \<and>
   feasible_squads pool15 tight_budget = [] \<and>
   optimize_squad (+) pick_all pool15 tight_budget = Inr (Success squad15)"
proof -
  have c14: "cbc_contract cbc_tol 0 pick_all (build_problem pool14 100)"
    by (rule pick_all_contract[OF pool14_distinct pool14_length])
  have c15: "cbc_contract cbc_tol 0 pick_all (build_problem pool15 low_budget)"
    by (rule pick_all_contract[OF pool15_distinct pool15_length])
  have c1c: "cbc_contract cbc_tol 0 pick_all (build_problem pool15_oneclub 100)"
    by (rule pick_all_contract[OF pool15_oneclub_distinct pool15_oneclub_length])
  have gk: "count_pos ''GK'' (rows pool14) = 1"
    by (simp add: pool14_def pool15_def count_pos_def)
  have low: "low_budget < sum_list (map price (rows pool15))"
    by (simp add: pool15_def low_budget_def)
  have tight: "tight_budget < sum_list (map price (rows pool15))"
    by (simp add: pool15_def tight_budget_def)
  have r14: "optimize_squad (+) pick_all pool14 100
             = Inr (Failed ''No optimal solution found'')"
    by (simp add: pick_all_squad[OF pool14_distinct] pool14_not_ok)
  have r15: "optimize_squad (+) pick_all pool15 low_budget
             = Inr (Failed ''No optimal solution found'')"
    by (simp add: pick_all_squad[OF pool15_distinct] pool15_low_budget)
  have r1c: "optimize_squad (+) pick_all pool15_oneclub 100
             = Inr (Failed ''No optimal solution found'')"
    by (simp add: pick_all_squad[OF pool15_oneclub_distinct] pool15_oneclub_not_ok)
  show ?thesis
    using c14 c15 c1c gk pool15_ok low pool15_oneclub_count r14 r15 r1c
      pool15_tight_contract tight pool15_tight_none pool15_tight_squad
    by blast
qed

section \<open>Several squads\<close>

lemma rows_available: "rows (available df ex) = filter (\<lambda>r. pid r \<notin> ex) (rows df)"
  by (simp add: available_def)

lemma team_col_available: "team_col (available df ex) = team_col df"
  by (simp add: available_def)

lemma available_distinct:
  "distinct (index_tolist df) \<Longrightarrow> distinct (index_tolist (available df ex))"
  by (simp add: index_tolist_def rows_available distinct_map_filter)

lemma available_ids: "set (index_tolist (available df ex)) \<inter> ex = {}"
  by (auto simp: index_tolist_def rows_available)

lemma optimize_squad_returns:
  assumes d: "distinct (index_tolist df)"
    and t0: "0 \<le> tol" and t1: "tol < 1"
    and c: "cbc_contract tol gap solver (build_problem df budget)"
  shows "optimize_squad fadd solver df budget = Inr (Failed ''No optimal solution found'') \<or>
         (\<exists>sq. optimize_squad fadd solver df budget = Inr (Success sq))"
proof (cases "fst (solver (build_problem df budget)) = 1")
  case False
  then show ?thesis by (auto simp: optimize_squad_def split: prod.splits)
next
  case True
  define x where "x = snd (solver (build_problem df budget))"
  have sx: "solver (build_problem df budget) = (1, x)"
    using True by (simp add: x_def prod_eq_iff)
  have ok: "squad_ok df (budget + tol) (chosen df x)"
    by (rule contract_optimal(2)[OF d t0 t1 c sx])
  from squad_ok_success[OF ok] obtain sq where
    "squad_from_rows fadd df (chosen df x) = Inr (Success sq)" by blast
  then have "optimize_squad fadd solver df budget = Inr (Success sq)"
    by (simp add: optimize_squad_def sx build_squad_rows[OF d])
  then show ?thesis by blast
qed

lemma fold_union:
  "fold (\<lambda>p ex. ex \<union> F p) ps ex0 = ex0 \<union> (\<Union>p \<in> set ps. F p)"
  by (induction ps arbitrary: ex0) auto

lemma mark_used_eq:
  "mark_used adf sq ex
   = ex \<union> (\<Union>p \<in> set (all_players sq). set (name_indices adf (info_name p)))"
  by (simp add: mark_used_def fold_union)

lemma all_players_set:
  assumes s: "squad_from_rows fadd df sel = Inr (Success sq)"
    and k: "\<forall>r \<in> set sel. known_position r"
  shows "set (all_players sq) = info_row df ` set sel"
proof -
  have "set_mset (mset (all_players sq)) = set_mset (mset (map (info_row df) sel))"
    by (simp only: all_players_mset[OF s k])
  then show ?thesis by simp
qed

text \<open>What lines 134 to 139 add: the index labels of every row that carries the name of
  a selected player.\<close>

lemma mark_used_rows:
  assumes s: "squad_from_rows fadd adf sel = Inr (Success sq)"
    and k: "\<forall>r \<in> set sel. known_position r"
  shows "mark_used adf sq ex
         = ex \<union> set (map pid (filter (\<lambda>r. name r \<in> set (map name sel)) (rows adf)))"
  unfolding mark_used_eq all_players_set[OF s k]
  by (auto simp: name_indices_def info_row_def)

lemma selected_marked:
  assumes d: "distinct (index_tolist adf)"
    and t0: "0 \<le> tol" and t1: "tol < 1"
    and c: "cbc_contract tol gap solver (build_problem adf budget)"
    and s: "optimize_squad fadd solver adf budget = Inr (Success sq)"
  shows "set (selected_ids sq) \<subseteq> mark_used adf sq ex"
    and "set (selected_ids sq) \<subseteq> set (index_tolist adf)"
    and "ex \<subseteq> mark_used adf sq ex"
proof -
  let ?sel = "selected_rows adf sq"
  note r = success_rows(1)[OF d s]
  note k = success_members(1)[OF d t0 t1 c s]
  note ids = success_rows(4)[OF d s]
  have sub: "set ?sel \<subseteq> set (rows adf)" by (auto simp: selected_rows_def)
  show "set (selected_ids sq) \<subseteq> mark_used adf sq ex"
    unfolding mark_used_rows[OF r k] ids using sub by auto
  show "set (selected_ids sq) \<subseteq> set (index_tolist adf)"
    unfolding ids index_tolist_def using sub by auto
  show "ex \<subseteq> mark_used adf sq ex" by (auto simp: mark_used_eq)
qed

lemma round_body_cases:
  assumes d: "distinct (index_tolist df)"
    and t0: "0 \<le> tol" and t1: "tol < 1"
    and c: "length (rows (available df (snd st))) < 15 \<or>
            cbc_contract tol gap solver (build_problem (available df (snd st)) budget)"
  shows "round_body fadd solver df budget i st = Inr Break \<or>
         (\<exists>sq. \<not> length (rows (available df (snd st))) < 15 \<and>
               optimize_squad fadd solver (available df (snd st)) budget = Inr (Success sq) \<and>
               round_body fadd solver df budget i st
               = Inr (Next (fst st @ [make_option i sq],
                            mark_used (available df (snd st)) sq (snd st))))"
proof (cases "length (rows (available df (snd st))) < 15")
  case True
  then show ?thesis by (simp add: round_body_def)
next
  case False
  with c have c': "cbc_contract tol gap solver (build_problem (available df (snd st)) budget)"
    by simp
  from optimize_squad_returns[OF available_distinct[OF d] t0 t1 c', of fadd]
  show ?thesis using False by (auto simp: round_body_def Let_def)
qed

subsection \<open>The loop\<close>

lemma disjoint_squads_snoc:
  "disjoint_squads (ss @ [t]) \<longleftrightarrow> disjoint_squads ss \<and> (\<forall>s \<in> set ss. set s \<inter> set t = {})"
  by (induction ss) auto

lemma disjoint_squads_nth:
  "disjoint_squads ss \<Longrightarrow> i < j \<Longrightarrow> j < length ss \<Longrightarrow> set (ss ! i) \<inter> set (ss ! j) = {}"
proof (induction ss arbitrary: i j)
  case Nil
  then show ?case by simp
next
  case (Cons s ss)
  from Cons.prems(2) obtain j' where j: "j = Suc j'" by (cases j) auto
  show ?case
  proof (cases i)
    case 0
    have "ss ! j' \<in> set ss" using Cons.prems(3) j by simp
    then show ?thesis using Cons.prems(1) 0 j by simp
  next
    case (Suc i')
    then show ?thesis using Cons.IH[of i' j'] Cons.prems j by simp
  qed
qed

lemma selected_of_snoc: "selected_of (sqs @ [make_option i sq]) = selected_of sqs @ [selected_ids sq]"
  by (simp add: selected_of_def make_option_def)

lemma squads_loop_disjoint:
  assumes d: "distinct (index_tolist df)"
    and t0: "0 \<le> tol" and t1: "tol < 1"
    and exact: "contract_in_rounds tol gap fadd solver df budget rounds st"
    and marked: "\<forall>s \<in> set (selected_of (fst st)). set s \<subseteq> snd st"
    and disj: "disjoint_squads (selected_of (fst st))"
  shows "\<exists>squads. squads_loop fadd solver df budget rounds st = Inr squads \<and>
           disjoint_squads (selected_of squads) \<and>
           length squads \<le> length (fst st) + length rounds"
  using exact marked disj
proof (induction rounds arbitrary: st)
  case Nil
  then show ?case by simp
next
  case (Cons i rounds)
  let ?adf = "available df (snd st)"
  from Cons.prems(1) have c: "length (rows ?adf) < 15 \<or>
      cbc_contract tol gap solver (build_problem ?adf budget)"
    by auto
  from round_body_cases[OF d t0 t1 c, of fadd i] show ?case
  proof
    assume "round_body fadd solver df budget i st = Inr Break"
    then show ?thesis using Cons.prems(3) by simp
  next
    assume "\<exists>sq. \<not> length (rows ?adf) < 15 \<and>
               optimize_squad fadd solver ?adf budget = Inr (Success sq) \<and>
               round_body fadd solver df budget i st
               = Inr (Next (fst st @ [make_option i sq], mark_used ?adf sq (snd st)))"
    then obtain sq where big: "\<not> length (rows ?adf) < 15"
      and s: "optimize_squad fadd solver ?adf budget = Inr (Success sq)"
      and rb: "round_body fadd solver df budget i st
               = Inr (Next (fst st @ [make_option i sq], mark_used ?adf sq (snd st)))"
      by blast
    let ?st' = "(fst st @ [make_option i sq], mark_used ?adf sq (snd st))"
    from Cons.prems(1) big rb have
      c': "cbc_contract tol gap solver (build_problem ?adf budget)"
      and exact': "contract_in_rounds tol gap fadd solver df budget rounds ?st'"
      by auto
    note m = selected_marked[OF available_distinct[OF d] t0 t1 c' s]
    have new_fresh: "set (selected_ids sq) \<inter> snd st = {}"
      using m(2) available_ids[of df "snd st"] by blast
    have marked': "\<forall>t \<in> set (selected_of (fst ?st')). set t \<subseteq> snd ?st'"
      using Cons.prems(2) m(1)[of "snd st"] m(3)[of "snd st"]
      by (auto simp: selected_of_snoc)
    have disj': "disjoint_squads (selected_of (fst ?st'))"
      using Cons.prems(2,3) new_fresh by (auto simp: selected_of_snoc disjoint_squads_snoc)
    from Cons.IH[OF exact' marked' disj'] obtain squads where
      "squads_loop fadd solver df budget rounds ?st' = Inr squads"
      "disjoint_squads (selected_of squads)"
      "length squads \<le> length (fst ?st') + length rounds"
      by blast
    then show ?thesis using rb by auto
  qed
qed

lemma squads_loop_break:
  assumes "length (rows (available df (snd st))) < 15 \<or>
           optimize_squad fadd solver (available df (snd st)) budget = Inr (Failed m)"
  shows "squads_loop fadd solver df budget (i # rest) st = Inr (fst st)"
  using assms by (auto simp: round_body_def Let_def)

text \<open>
  Claim C4. The squads \<^verbatim>\<open>optimize_multiple_squads\<close> returns are pairwise disjoint in
  candidate identity: no index label is selected in two of them. The call returns a list
  (it raises nothing) when the solver keeps its contract, to a feasibility tolerance
  below 1, in the rounds that reach it; the index labels of the pool are distinct.
\<close>

theorem squads_pairwise_disjoint:
  assumes "distinct (index_tolist df)"
    and "0 \<le> tol" and "tol < 1"
    and "contract_in_rounds tol gap fadd solver df budget [0..num_squads - 1] ([], {})"
  shows "\<exists>squads. optimize_multiple_squads fadd solver df num_squads budget = Inr squads \<and>
           (\<forall>i j. i < j \<and> j < length squads \<longrightarrow>
              set (selected_of squads ! i) \<inter> set (selected_of squads ! j) = {})"
proof -
  from squads_loop_disjoint[OF assms] obtain squads where
    r: "squads_loop fadd solver df budget [0..num_squads - 1] ([], {}) = Inr squads"
    and dj: "disjoint_squads (selected_of squads)"
    by (auto simp: selected_of_def)
  have "set (selected_of squads ! i) \<inter> set (selected_of squads ! j) = {}"
    if "i < j" "j < length squads" for i j
    using disjoint_squads_nth[OF dj that(1)] that(2) by (simp add: selected_of_def)
  then show ?thesis using r by (auto simp: optimize_multiple_squads_def)
qed

text \<open>
  Claim C7. \<^verbatim>\<open>optimize_multiple_squads\<close> returns a list, never an error, of at most the
  requested number of squads (none for a count below 1); and in any round, when fewer than
  15 candidates remain or the round's \<^verbatim>\<open>optimize_squad\<close> reports failure, the loop stops
  and returns the squads produced so far.
\<close>

theorem multiple_squads_stop_early:
  assumes "distinct (index_tolist df)"
    and "0 \<le> tol" and "tol < 1"
    and "contract_in_rounds tol gap fadd solver df budget [0..num_squads - 1] ([], {})"
  shows "(\<exists>squads. optimize_multiple_squads fadd solver df num_squads budget = Inr squads \<and>
            int (length squads) \<le> max 0 num_squads) \<and>
         (length (rows (available df (snd st))) < 15 \<or>
          optimize_squad fadd solver (available df (snd st)) budget = Inr (Failed m)
          \<longrightarrow> squads_loop fadd solver df budget (i # rest) st = Inr (fst st))"
proof -
  from squads_loop_disjoint[OF assms] obtain squads where
    r: "squads_loop fadd solver df budget [0..num_squads - 1] ([], {}) = Inr squads"
    and len: "length squads \<le> length [0..num_squads - 1]"
    by (auto simp: selected_of_def)
  have "int (length squads) \<le> max 0 num_squads" using len by simp
  then have "\<exists>squads. optimize_multiple_squads fadd solver df num_squads budget = Inr squads \<and>
            int (length squads) \<le> max 0 num_squads"
    using r by (auto simp: optimize_multiple_squads_def)
  then show ?thesis using squads_loop_break[of df st fadd solver budget m i rest] by blast
qed

subsection \<open>Rounds of the solver \<open>pick_first\<close>\<close>

lemma pick_first_contract_within:
  assumes d: "distinct (index_tolist df)"
    and ok: "squad_ok df budget (take 15 (rows df))"
    and top: "\<forall>r \<in> set (rows df). predicted_points r \<le> c"
    and first: "\<forall>r \<in> set (take 15 (rows df)). predicted_points r = c"
  shows "cbc_contract cbc_tol 0 pick_first (build_problem df budget)"
proof -
  have "squad_ok df (budget + cbc_tol) (take 15 (rows df))"
    by (rule squad_ok_mono[OF _ ok]) (simp add: cbc_tol_range)
  then show ?thesis using top first by (rule pick_first_contract_top[OF d])
qed

lemma pick_first_round:
  assumes d: "distinct (index_tolist df)"
    and big: "\<not> length (rows (available df (snd st))) < 15"
    and ok: "squad_ok (available df (snd st)) budget (take 15 (rows (available df (snd st))))"
  shows "\<exists>sq. round_body fadd pick_first df budget i st =
           Inr (Next (fst st @ [make_option i sq],
                      snd st \<union> set (map pid (filter
                         (\<lambda>r. name r \<in> set (map name (take 15 (rows (available df (snd st))))))
                         (rows (available df (snd st))))))) \<and>
              selected_ids sq = map pid (take 15 (rows (available df (snd st))))"
proof -
  let ?adf = "available df (snd st)"
  have ok': "squad_ok ?adf (budget + cbc_tol) (take 15 (rows ?adf))"
    by (rule squad_ok_mono[OF _ ok]) (simp add: cbc_tol_range)
  from squad_ok_success[OF ok] obtain sq where
    r: "squad_from_rows fadd ?adf (take 15 (rows ?adf)) = Inr (Success sq)" by blast
  have k: "\<forall>r \<in> set (take 15 (rows ?adf)). known_position r"
    using squad_ok_known[OF ok] by blast
  have s: "optimize_squad fadd pick_first ?adf budget = Inr (Success sq)"
    using ok' r by (simp add: pick_first_squad[OF available_distinct[OF d]])
  have "round_body fadd pick_first df budget i st =
           Inr (Next (fst st @ [make_option i sq], mark_used ?adf sq (snd st)))"
    using big s by (simp add: round_body_def Let_def)
  then show ?thesis
    using mark_used_rows[OF r k, of "snd st"] success_fields(8)[OF r] by auto
qed

lemma available_nothing: "available df {} = df"
  by (simp add: available_def)

subsection \<open>The pool of thirty\<close>

lemma pool30_distinct: "distinct (index_tolist pool30)"
  by (simp add: pool30_def index_tolist_def)

lemma pool30_first_ok: "squad_ok pool30 100 (take 15 (rows pool30))"
  by (simp add: squad_ok_def pool30_def count_pos_def count_team_def)

lemma pool30_second_ok:
  "team_col df = True \<Longrightarrow> squad_ok df 100 (take 15 (drop 15 (rows pool30)))"
  by (simp add: squad_ok_def pool30_def count_pos_def count_team_def)

lemma pool30_first_names:
  "filter (\<lambda>r. name r \<in> set (map name (take 15 (rows pool30)))) (rows pool30)
   = take 15 (rows pool30)"
  by (simp add: pool30_def)

lemma pool30_second_names:
  "filter (\<lambda>r. name r \<in> set (map name (take 15 (drop 15 (rows pool30))))) (drop 15 (rows pool30))
   = drop 15 (rows pool30)"
  by (simp add: pool30_def)

lemma pool30_rest_first:
  "filter (\<lambda>r. pid r \<notin> set (map pid (take 15 (rows pool30)))) (rows pool30)
   = drop 15 (rows pool30)"
  by (simp add: pool30_def)

lemma pool30_rest_second:
  "filter (\<lambda>r. pid r \<notin> set (map pid (take 15 (rows pool30)))
                        \<union> set (map pid (drop 15 (rows pool30)))) (rows pool30) = []"
  by (simp add: pool30_def)

lemma pool30_length: "length (rows pool30) = 30"
  by (simp add: pool30_def)

lemma pool30_team_col: "team_col pool30 = True"
  by (simp add: pool30_def)

lemma pool30_contract: "cbc_contract cbc_tol 0 pick_first (build_problem pool30 100)"
proof (rule pick_first_contract_within[OF pool30_distinct pool30_first_ok, where c = 2])
  show "\<forall>r \<in> set (rows pool30). predicted_points r \<le> 2" by (simp add: pool30_def)
  show "\<forall>r \<in> set (take 15 (rows pool30)). predicted_points r = 2" by (simp add: pool30_def)
qed

lemma pool30_run:
  "\<exists>sqA sqB.
     squads_loop (+) pick_first pool30 100 [0, 1, 2] ([], {})
       = Inr [make_option 0 sqA, make_option 1 sqB] \<and>
     selected_ids sqA = map pid (take 15 (rows pool30)) \<and>
     selected_ids sqB = map pid (drop 15 (rows pool30)) \<and>
     contract_in_rounds cbc_tol 0 (+) pick_first pool30 100 [0, 1, 2] ([], {})"
proof -
  define EA :: "int set" where "EA = set (map pid (take 15 (rows pool30)))"
  define EB :: "int set" where "EB = EA \<union> set (map pid (drop 15 (rows pool30)))"
  let ?st0 = "([], {}) :: multi_state"
  have big0: "\<not> length (rows (available pool30 (snd ?st0))) < 15"
    by (simp add: available_nothing pool30_length)
  have ok0: "squad_ok (available pool30 (snd ?st0)) 100
               (take 15 (rows (available pool30 (snd ?st0))))"
    using pool30_first_ok by (simp add: available_nothing)
  have m0: "snd ?st0 \<union> set (map pid (filter
               (\<lambda>r. name r \<in> set (map name (take 15 (rows (available pool30 (snd ?st0))))))
               (rows (available pool30 (snd ?st0))))) = EA"
    unfolding snd_conv available_nothing pool30_first_names EA_def by simp
  from pick_first_round[OF pool30_distinct big0 ok0, where i = 0 and fadd = "(+)"] obtain sqA where
    rA: "round_body (+) pick_first pool30 100 0 ?st0 = Inr (Next ([make_option 0 sqA], EA))"
    and idsA: "selected_ids sqA = map pid (take 15 (rows pool30))"
    unfolding m0 by (auto simp: available_nothing)
  let ?st1 = "([make_option 0 sqA], EA)"
  have rowsB: "rows (available pool30 EA) = drop 15 (rows pool30)"
    unfolding rows_available EA_def by (rule pool30_rest_first)
  have lenB: "length (rows (available pool30 EA)) = 15"
    by (simp add: rowsB pool30_length)
  have big1: "\<not> length (rows (available pool30 (snd ?st1))) < 15"
    by (simp add: lenB)
  have ok1: "squad_ok (available pool30 (snd ?st1)) 100
               (take 15 (rows (available pool30 (snd ?st1))))"
    unfolding snd_conv rowsB
    by (rule pool30_second_ok) (simp add: team_col_available pool30_team_col)
  have m1: "snd ?st1 \<union> set (map pid (filter
               (\<lambda>r. name r \<in> set (map name (take 15 (rows (available pool30 (snd ?st1))))))
               (rows (available pool30 (snd ?st1))))) = EB"
    unfolding snd_conv rowsB pool30_second_names EB_def ..
  from pick_first_round[OF pool30_distinct big1 ok1, where i = 1 and fadd = "(+)"] obtain sqB where
    rB: "round_body (+) pick_first pool30 100 1 ?st1
         = Inr (Next ([make_option 0 sqA, make_option 1 sqB], EB))"
    and idsB: "selected_ids sqB = map pid (take 15 (rows (available pool30 EA)))"
    unfolding m1 by auto
  let ?st2 = "([make_option 0 sqA, make_option 1 sqB], EB)"
  have rowsC: "rows (available pool30 EB) = []"
    unfolding rows_available EB_def EA_def by (rule pool30_rest_second)
  have small2: "length (rows (available pool30 (snd ?st2))) < 15" by (simp add: rowsC)
  have rC: "round_body (+) pick_first pool30 100 2 ?st2 = Inr Break"
    using small2 by (simp add: round_body_def)
  have cA: "cbc_contract cbc_tol 0 pick_first (build_problem (available pool30 (snd ?st0)) 100)"
    using pool30_contract by (simp add: available_nothing)
  have cB: "cbc_contract cbc_tol 0 pick_first (build_problem (available pool30 (snd ?st1)) 100)"
    by (rule pick_first_contract_small[OF available_distinct[OF pool30_distinct]])
      (simp add: lenB)
  have loop: "squads_loop (+) pick_first pool30 100 [0, 1, 2] ?st0
              = Inr [make_option 0 sqA, make_option 1 sqB]"
    by (simp add: rA rB rC)
  have exact: "contract_in_rounds cbc_tol 0 (+) pick_first pool30 100 [0, 1, 2] ?st0"
    using cA cB small2 by (simp add: rA rB)
  have "selected_ids sqB = map pid (drop 15 (rows pool30))"
    by (simp add: idsB rowsB pool30_length)
  with idsA loop exact show ?thesis by blast
qed

lemma upto_three: "[0..3 - 1] = [0, 1, 2::int]"
  by (simp add: upto.simps)

lemma upto_two: "[0..2 - 1] = [0, 1::int]"
  by (simp add: upto.simps)

lemma pool30_first_ids:
  "map pid (take 15 (rows pool30)) = [0, 1, 2, 3, 4, 5, 6, 7, 8, 9, 10, 11, 12, 13, 14]"
  by (simp add: pool30_def)

lemma pool30_second_ids:
  "map pid (drop 15 (rows pool30)) = [15, 16, 17, 18, 19, 20, 21, 22, 23, 24, 25, 26, 27, 28, 29]"
  by (simp add: pool30_def)

lemma pool30_three_squads:
  "\<exists>squads. optimize_multiple_squads (+) pick_first pool30 3 100 = Inr squads \<and>
     selected_of squads =
       [[0, 1, 2, 3, 4, 5, 6, 7, 8, 9, 10, 11, 12, 13, 14],
        [15, 16, 17, 18, 19, 20, 21, 22, 23, 24, 25, 26, 27, 28, 29]]"
proof -
  from pool30_run obtain sqA sqB where
    "squads_loop (+) pick_first pool30 100 [0, 1, 2] ([], {})
       = Inr [make_option 0 sqA, make_option 1 sqB]"
    "selected_ids sqA = map pid (take 15 (rows pool30))"
    "selected_ids sqB = map pid (drop 15 (rows pool30))"
    by blast
  then show ?thesis
    unfolding optimize_multiple_squads_def upto_three pool30_first_ids pool30_second_ids
    by (simp add: selected_of_def make_option_def)
qed

lemma pool30_exact: "contract_in_rounds cbc_tol 0 (+) pick_first pool30 100 [0..3 - 1] ([], {})"
  unfolding upto_three using pool30_run by blast

theorem squads_pairwise_disjoint_witness:
  "distinct (index_tolist pool30) \<and>
   contract_in_rounds cbc_tol 0 (+) pick_first pool30 100 [0..3 - 1] ([], {}) \<and>
   (\<exists>squads. optimize_multiple_squads (+) pick_first pool30 3 100 = Inr squads \<and>
      selected_of squads =
        [[0, 1, 2, 3, 4, 5, 6, 7, 8, 9, 10, 11, 12, 13, 14],
         [15, 16, 17, 18, 19, 20, 21, 22, 23, 24, 25, 26, 27, 28, 29]] \<and>
      set (selected_of squads ! 0) \<inter> set (selected_of squads ! 1) = {})"
proof -
  from squads_pairwise_disjoint[OF pool30_distinct cbc_tol_range pool30_exact] obtain squads where
    r: "optimize_multiple_squads (+) pick_first pool30 3 100 = Inr squads"
    and dj: "\<forall>i j. i < j \<and> j < length squads \<longrightarrow>
               set (selected_of squads ! i) \<inter> set (selected_of squads ! j) = {}"
    by blast
  from pool30_three_squads r have ids: "selected_of squads =
        [[0, 1, 2, 3, 4, 5, 6, 7, 8, 9, 10, 11, 12, 13, 14],
         [15, 16, 17, 18, 19, 20, 21, 22, 23, 24, 25, 26, 27, 28, 29]]"
    by auto
  then have "length (selected_of squads) = 2" by simp
  then have "length squads = 2" by (simp add: selected_of_def)
  then have "set (selected_of squads ! 0) \<inter> set (selected_of squads ! 1) = {}"
    using dj by simp
  with r ids pool30_distinct pool30_exact show ?thesis by blast
qed

theorem multiple_squads_stop_early_witness:
  "distinct (index_tolist pool30) \<and>
   contract_in_rounds cbc_tol 0 (+) pick_first pool30 100 [0..3 - 1] ([], {}) \<and>
   (\<exists>squads. optimize_multiple_squads (+) pick_first pool30 3 100 = Inr squads \<and>
      length squads = 2 \<and> int (length squads) \<le> max 0 3) \<and>
   length (rows (available pool30 (set (index_tolist pool30)))) < 15 \<and>
   squads_loop (+) pick_first pool30 100 [0, 1, 2] ([], set (index_tolist pool30)) = Inr []"
proof -
  have small: "length (rows (available pool30 (set (index_tolist pool30)))) < 15"
    by (simp add: rows_available index_tolist_def)
  note t = multiple_squads_stop_early[OF pool30_distinct cbc_tol_range pool30_exact,
      of "([], set (index_tolist pool30))" "''''" 0 "[1, 2]"]
  from t obtain squads where
    r: "optimize_multiple_squads (+) pick_first pool30 3 100 = Inr squads"
    and len: "int (length squads) \<le> max 0 3"
    by blast
  from pool30_three_squads r have "length (selected_of squads) = 2" by auto
  then have two: "length squads = 2" by (simp add: selected_of_def)
  have "squads_loop (+) pick_first pool30 100 [0, 1, 2] ([], set (index_tolist pool30)) = Inr []"
    using t small by simp
  with r len two small pool30_distinct pool30_exact show ?thesis by blast
qed

subsection \<open>Two players with one name\<close>

lemma samename_distinct: "distinct (index_tolist pool30_samename)"
  by (simp add: pool30_samename_def pool30_def index_tolist_def)

lemma samename_length: "length (rows pool30_samename) = 30"
  by (simp add: pool30_samename_def pool30_def)

lemma samename_team_col: "team_col pool30_samename = True"
  by (simp add: pool30_samename_def pool30_def)

lemma samename_first_ok: "squad_ok pool30_samename 100 (take 15 (rows pool30_samename))"
  by (simp add: squad_ok_def pool30_samename_def pool30_def count_pos_def count_team_def)

lemma samename_second_ok:
  "team_col df = True \<Longrightarrow> squad_ok df 100 (drop 15 (rows pool30_samename))"
  by (simp add: squad_ok_def pool30_samename_def pool30_def count_pos_def count_team_def)

lemma samename_contract: "cbc_contract cbc_tol 0 pick_first (build_problem pool30_samename 100)"
proof (rule pick_first_contract_within[OF samename_distinct samename_first_ok, where c = 2])
  show "\<forall>r \<in> set (rows pool30_samename). predicted_points r \<le> 2"
    by (simp add: pool30_samename_def pool30_def)
  show "\<forall>r \<in> set (take 15 (rows pool30_samename)). predicted_points r = 2"
    by (simp add: pool30_samename_def pool30_def)
qed

lemma samename_first_names:
  "filter (\<lambda>r. name r \<in> set (map name (take 15 (rows pool30_samename)))) (rows pool30_samename)
   = take 16 (rows pool30_samename)"
  by (simp add: pool30_samename_def pool30_def)

lemma samename_rest:
  "filter (\<lambda>r. pid r \<notin> set (map pid (take 16 (rows pool30_samename)))) (rows pool30_samename)
   = drop 16 (rows pool30_samename)"
  by (simp add: pool30_samename_def pool30_def)

lemma samename_by_identity:
  "filter (\<lambda>r. pid r \<notin> set (map pid (take 15 (rows pool30_samename)))) (rows pool30_samename)
   = drop 15 (rows pool30_samename)"
  by (simp add: pool30_samename_def pool30_def)

lemma samename_first_ids:
  "map pid (take 15 (rows pool30_samename)) = [0, 1, 2, 3, 4, 5, 6, 7, 8, 9, 10, 11, 12, 13, 14]"
  by (simp add: pool30_samename_def pool30_def)

lemma samename_marked_ids:
  "map pid (take 16 (rows pool30_samename))
   = [0, 1, 2, 3, 4, 5, 6, 7, 8, 9, 10, 11, 12, 13, 14, 15]"
  by (simp add: pool30_samename_def pool30_def)

lemma samename_names:
  "map name (filter (\<lambda>r. pid r = 0 \<or> pid r = 15) (rows pool30_samename)) = [''A0'', ''A0'']"
  by (simp add: pool30_samename_def pool30_def)

lemma samename_run:
  "\<exists>sq.
     round_body (+) pick_first pool30_samename 100 0 ([], {})
       = Inr (Next ([make_option 0 sq], set (map pid (take 16 (rows pool30_samename))))) \<and>
     squads_loop (+) pick_first pool30_samename 100 [0, 1] ([], {}) = Inr [make_option 0 sq] \<and>
     selected_ids sq = map pid (take 15 (rows pool30_samename)) \<and>
     contract_in_rounds cbc_tol 0 (+) pick_first pool30_samename 100 [0, 1] ([], {})"
proof -
  define EA :: "int set" where "EA = set (map pid (take 16 (rows pool30_samename)))"
  let ?st0 = "([], {}) :: multi_state"
  have big0: "\<not> length (rows (available pool30_samename (snd ?st0))) < 15"
    by (simp add: available_nothing samename_length)
  have ok0: "squad_ok (available pool30_samename (snd ?st0)) 100
               (take 15 (rows (available pool30_samename (snd ?st0))))"
    using samename_first_ok by (simp add: available_nothing)
  have m0: "snd ?st0 \<union> set (map pid (filter
               (\<lambda>r. name r \<in> set (map name (take 15 (rows (available pool30_samename (snd ?st0))))))
               (rows (available pool30_samename (snd ?st0))))) = EA"
    unfolding snd_conv available_nothing samename_first_names EA_def by simp
  from pick_first_round[OF samename_distinct big0 ok0, where i = 0 and fadd = "(+)"] obtain sq where
    rA: "round_body (+) pick_first pool30_samename 100 0 ?st0 = Inr (Next ([make_option 0 sq], EA))"
    and ids: "selected_ids sq = map pid (take 15 (rows pool30_samename))"
    unfolding m0 by (auto simp: available_nothing)
  let ?st1 = "([make_option 0 sq], EA)"
  have rowsB: "rows (available pool30_samename EA) = drop 16 (rows pool30_samename)"
    unfolding rows_available EA_def by (rule samename_rest)
  have small1: "length (rows (available pool30_samename (snd ?st1))) < 15"
    by (simp add: rowsB samename_length)
  have rB: "round_body (+) pick_first pool30_samename 100 1 ?st1 = Inr Break"
    using small1 by (simp add: round_body_def)
  have cA: "cbc_contract cbc_tol 0 pick_first (build_problem (available pool30_samename (snd ?st0)) 100)"
    using samename_contract by (simp add: available_nothing)
  have loop: "squads_loop (+) pick_first pool30_samename 100 [0, 1] ?st0 = Inr [make_option 0 sq]"
    by (simp add: rA rB)
  have exact: "contract_in_rounds cbc_tol 0 (+) pick_first pool30_samename 100 [0, 1] ?st0"
    using cA small1 by (simp add: rA)
  from rA loop ids exact show ?thesis unfolding EA_def by blast
qed

text \<open>
  Claim C3 fails on the code. In \<open>pool30_samename\<close> the players with index labels 0 and
  15 are both named \<open>A0\<close>. The first round selects labels 0 to 14; the loop then excludes
  every row that carries the name of a selected player, and that puts label 15, which
  was not selected, into the excluded set. Only 14 rows remain, the second round breaks,
  and a request for two squads returns one, although the fifteen players not selected
  (labels 15 to 29) are a squad within the budget.
\<close>

theorem same_name_excluded:
  "distinct (index_tolist pool30_samename) \<and>
   contract_in_rounds cbc_tol 0 (+) pick_first pool30_samename 100 [0..2 - 1] ([], {}) \<and>
   map name (filter (\<lambda>r. pid r = 0 \<or> pid r = 15) (rows pool30_samename)) = [''A0'', ''A0''] \<and>
   (\<exists>sq. round_body (+) pick_first pool30_samename 100 0 ([], {})
           = Inr (Next ([make_option 0 sq],
                        set [0, 1, 2, 3, 4, 5, 6, 7, 8, 9, 10, 11, 12, 13, 14, 15])) \<and>
         selected_ids sq = [0, 1, 2, 3, 4, 5, 6, 7, 8, 9, 10, 11, 12, 13, 14]) \<and>
   (\<exists>squads. optimize_multiple_squads (+) pick_first pool30_samename 2 100 = Inr squads \<and>
         selected_of squads = [[0, 1, 2, 3, 4, 5, 6, 7, 8, 9, 10, 11, 12, 13, 14]]) \<and>
   map pid (rows (available pool30_samename (set [0, 1, 2, 3, 4, 5, 6, 7, 8, 9, 10, 11, 12, 13, 14])))
     = [15, 16, 17, 18, 19, 20, 21, 22, 23, 24, 25, 26, 27, 28, 29] \<and>
   squad_ok (available pool30_samename (set [0, 1, 2, 3, 4, 5, 6, 7, 8, 9, 10, 11, 12, 13, 14])) 100
     (rows (available pool30_samename (set [0, 1, 2, 3, 4, 5, 6, 7, 8, 9, 10, 11, 12, 13, 14])))"
proof -
  from samename_run obtain sq where
    rb: "round_body (+) pick_first pool30_samename 100 0 ([], {})
       = Inr (Next ([make_option 0 sq], set (map pid (take 16 (rows pool30_samename)))))"
    and loop: "squads_loop (+) pick_first pool30_samename 100 [0, 1] ([], {}) = Inr [make_option 0 sq]"
    and ids: "selected_ids sq = map pid (take 15 (rows pool30_samename))"
    and exact: "contract_in_rounds cbc_tol 0 (+) pick_first pool30_samename 100 [0, 1] ([], {})"
    by blast
  have round0: "\<exists>sq. round_body (+) pick_first pool30_samename 100 0 ([], {})
           = Inr (Next ([make_option 0 sq],
                        set [0, 1, 2, 3, 4, 5, 6, 7, 8, 9, 10, 11, 12, 13, 14, 15])) \<and>
         selected_ids sq = [0, 1, 2, 3, 4, 5, 6, 7, 8, 9, 10, 11, 12, 13, 14]"
    using rb ids unfolding samename_marked_ids samename_first_ids by blast
  have result: "\<exists>squads. optimize_multiple_squads (+) pick_first pool30_samename 2 100 = Inr squads \<and>
         selected_of squads = [[0, 1, 2, 3, 4, 5, 6, 7, 8, 9, 10, 11, 12, 13, 14]]"
    using loop ids unfolding optimize_multiple_squads_def upto_two samename_first_ids
    by (simp add: selected_of_def make_option_def)
  have rest: "rows (available pool30_samename
                (set [0, 1, 2, 3, 4, 5, 6, 7, 8, 9, 10, 11, 12, 13, 14]))
              = drop 15 (rows pool30_samename)"
    unfolding rows_available samename_first_ids[symmetric] by (rule samename_by_identity)
  have rest_ids: "map pid (drop 15 (rows pool30_samename))
     = [15, 16, 17, 18, 19, 20, 21, 22, 23, 24, 25, 26, 27, 28, 29]"
    by (simp add: pool30_samename_def pool30_def)
  have rest_ok: "squad_ok (available pool30_samename
                   (set [0, 1, 2, 3, 4, 5, 6, 7, 8, 9, 10, 11, 12, 13, 14])) 100
                   (drop 15 (rows pool30_samename))"
    by (rule samename_second_ok) (simp add: team_col_available samename_team_col)
  show ?thesis
    unfolding upto_two rest
    using samename_distinct exact samename_names round0 result rest_ids rest_ok by blast
qed

theorem same_name_excluded_witness:
  "\<exists>squads. optimize_multiple_squads (+) pick_first pool30_samename 2 100 = Inr squads \<and>
      length squads = 1"
proof -
  from same_name_excluded obtain squads where
    r: "optimize_multiple_squads (+) pick_first pool30_samename 2 100 = Inr squads"
    and s: "selected_of squads = [[0, 1, 2, 3, 4, 5, 6, 7, 8, 9, 10, 11, 12, 13, 14]]"
    by blast
  from s have "length (selected_of squads) = 1" by simp
  then have "length squads = 1" by (simp add: selected_of_def)
  with r show ?thesis by blast
qed

end
